theory Spec2Isabelle
  imports Main "HOL-Library.Log_Nat"
begin

section \<open>Library lending: data model\<close>

text \<open>
  The lending workflow of \<^verbatim>\<open>src/modules/library\<close>: the Book and BookRequest
  Mongoose models (\<^verbatim>\<open>book.model.js\<close>, \<^verbatim>\<open>bookRequest.model.js\<close>) and the
  operations of \<^verbatim>\<open>bookRequest.service.js\<close>.

  Modelling decisions.
  \<^item> The two collections are the state. Books are a map from book id to document.
    The service never deletes a BookRequest document, so the BookRequest collection is a
    list in insertion order and the \<^verbatim>\<open>_id\<close> of a document is its index in that list.
  \<^item> Every operation returns the database state it leaves behind together with its
    outcome: \<open>Inl\<close> the error thrown, \<open>Inr\<close> the returned value. A throw that happens
    after a \<^verbatim>\<open>save()\<close> therefore keeps the saved state.
  \<^item> A JavaScript Number that holds a count, a position, a duration in days or a
    millisecond time is an \<open>int\<close>: the model covers the whole-number values. Sums and
    products of Numbers are rounded to the nearest double as JavaScript does
    (\<open>js_add\<close>, \<open>js_mul\<close>), so they are exact up to \<open>2 ^ 53\<close> and lose
    precision beyond. Fractional Numbers, infinities and NaN, which an update of the
    catalogue can also store in a counter, are outside the model; the statements whose
    truth depends on the arithmetic say so.
  \<^item> \<^verbatim>\<open>new Date()\<close> is an argument of the operation that reads the clock. A
    \<^verbatim>\<open>Date\<close> built from a time outside \<open>\<plusminus> 8 640 000 000 000 000\<close> ms is invalid,
    and Mongoose refuses to save it.
  \<^item> Identifiers are natural numbers and the request kind is one of the two values of
    the schema enum: malformed ids and other kinds, which Mongoose rejects when it casts
    or validates them, are excluded by the types.
  \<^item> A populated reference that points to a missing Book is \<^verbatim>\<open>null\<close>, and reading a
    property of it throws a TypeError. User documents are not part of the state; a
    populated user is taken to exist.
  \<^item> Socket notifications (\<^verbatim>\<open>notifyUser\<close>) swallow their own errors and do not touch
    the database; only the evaluation of their arguments is modelled.
  \<^item> Book fields that the lending workflow never reads (title, author, reviews, rating,
    cover image) are left out, and with them the rating recomputation of the pre-save hook.
  \<^item> The operations are first modelled as running one at a time. The code takes no
    lock and opens no transaction, so calls can overlap between their \<^verbatim>\<open>await\<close>s;
    \<open>createRequest_async\<close> and \<open>returnBook_async\<close> give the same functions with the
    database state that each \<^verbatim>\<open>await\<close> meets passed separately.
\<close>

datatype bookType = Physical | Digital | Hybrid

datatype requestType = Borrow | Download

datatype status = Pending | Approved | Rejected | Issued | Returned | Waitlisted | Cancelled

record Book =
  bookType :: bookType
  totalCopies :: int
  availableCopies :: int
  fileUrl :: string
  borrowDurationDays :: int
  isActive :: bool

record BookRequest =
  book :: nat
  user :: nat
  requestType :: requestType
  status :: status
  approvedBy :: "nat option"
  approvedAt :: "int option"
  rejectedBy :: "nat option"
  rejectedAt :: "int option"
  rejectionReason :: string
  issuedBy :: "nat option"
  issuedAt :: "int option"
  dueDate :: "int option"
  returnedAt :: "int option"
  returnAcceptedBy :: "nat option"
  waitlistPosition :: "int option"
  waitlistNotifiedAt :: "int option"
  userNote :: string

record state =
  books :: "nat \<rightharpoonup> Book"
  requests :: "BookRequest list"

text \<open>
  Errors: an \<^verbatim>\<open>Error\<close> with a \<^verbatim>\<open>statusCode\<close> and a message, as the service throws
  them; a TypeError from a property read on \<^verbatim>\<open>null\<close>; a Mongoose validation error
  (with the validator's message); a MongoDB write error.
\<close>

datatype error =
    HttpError nat string
  | TypeError
  | ValidationError string
  | WriteError string

type_synonym 'a result = "state \<times> (error + 'a)"

fun status_name :: "status \<Rightarrow> string" where
  "status_name Pending = ''pending''"
| "status_name Approved = ''approved''"
| "status_name Rejected = ''rejected''"
| "status_name Issued = ''issued''"
| "status_name Returned = ''returned''"
| "status_name Waitlisted = ''waitlisted''"
| "status_name Cancelled = ''cancelled''"

section \<open>JavaScript numbers and dates\<close>

text \<open>
  The whole number nearest to \<open>n\<close> that a double represents (53 significant bits,
  ties to the even significand). Magnitudes beyond the largest double are not modelled.
\<close>

definition double_of_int :: "int \<Rightarrow> int" where
  "double_of_int n =
     (let m = \<bar>n\<bar>; k = bitlen m - 53
      in if k \<le> 0 then n
         else (let u = 2 ^ nat k; q = m div u; r = m mod u;
                   q' = (if 2 * r < u \<or> (2 * r = u \<and> even q) then q else q + 1)
               in sgn n * (q' * u)))"

definition is_double :: "int \<Rightarrow> bool" where
  "is_double n \<longleftrightarrow> double_of_int n = n"

text \<open>
  \<^verbatim>\<open>a + b\<close> and \<^verbatim>\<open>a * b\<close> on Numbers: the exact result, rounded. A Number is
  always a double; on an \<open>int\<close> that is not one, which no Number holds, the model keeps
  the exact result.
\<close>

definition js_add :: "int \<Rightarrow> int \<Rightarrow> int" where
  "js_add a b = (if is_double a \<and> is_double b then double_of_int (a + b) else a + b)"

definition js_mul :: "int \<Rightarrow> int \<Rightarrow> int" where
  "js_mul a b = (if is_double a \<and> is_double b then double_of_int (a * b) else a * b)"

text \<open>The time values of a valid \<^verbatim>\<open>Date\<close>.\<close>

definition valid_time :: "int \<Rightarrow> bool" where
  "valid_time t \<longleftrightarrow> \<bar>t\<bar> \<le> 8640000000000000"

section \<open>Mongoose and MongoDB primitives\<close>

text \<open>\<^verbatim>\<open>Model.findById\<close> on the BookRequest collection.\<close>

definition findById :: "nat \<Rightarrow> BookRequest list \<Rightarrow> BookRequest option" where
  "findById rid rs = (if rid < length rs then Some (rs ! rid) else None)"

text \<open>\<^verbatim>\<open>Model.findOne(filter)\<close>: the id of the first document that matches.\<close>

definition findOne :: "(BookRequest \<Rightarrow> bool) \<Rightarrow> BookRequest list \<Rightarrow> nat option" where
  "findOne P rs =
     (if list_ex P rs then Some (length (takeWhile (\<lambda>r. \<not> P r) rs)) else None)"

definition countDocuments :: "(BookRequest \<Rightarrow> bool) \<Rightarrow> BookRequest list \<Rightarrow> int" where
  "countDocuments P rs = int (length (filter P rs))"

text \<open>
  \<^verbatim>\<open>updateMany(filter, { $inc: { waitlistPosition: d } })\<close>. The documents are
  updated one after the other; \<^verbatim>\<open>$inc\<close> on a \<^verbatim>\<open>null\<close> field is a write error that
  stops the update and keeps what was written before it.
\<close>

fun updateMany_inc ::
  "(BookRequest \<Rightarrow> bool) \<Rightarrow> int \<Rightarrow> BookRequest list \<Rightarrow> BookRequest list \<times> error option" where
  "updateMany_inc P d [] = ([], None)"
| "updateMany_inc P d (r # rs) =
     (if P r then
        (case waitlistPosition r of
           None \<Rightarrow> (r # rs, Some (WriteError ''Cannot apply $inc to a value of non-numeric type''))
         | Some p \<Rightarrow>
             (case updateMany_inc P d rs of
                (rs', e) \<Rightarrow> (r\<lparr>waitlistPosition := Some (p + d)\<rparr> # rs', e)))
      else
        (case updateMany_inc P d rs of (rs', e) \<Rightarrow> (r # rs', e)))"

text \<open>
  The query operator \<^verbatim>\<open>{ $gt: position }\<close>: a number is greater than a number only;
  \<^verbatim>\<open>null\<close> on either side matches nothing.
\<close>

fun gt_query :: "int option \<Rightarrow> int option \<Rightarrow> bool" where
  "gt_query (Some p) (Some k) = (k < p)"
| "gt_query _ _ = False"

text \<open>
  The \<^verbatim>\<open>trim: true\<close> setter of a String path (\<^verbatim>\<open>String.prototype.trim\<close>), for
  strings whose characters are in the Latin-1 range, one \<open>char\<close> per code unit.
\<close>

definition is_space :: "char \<Rightarrow> bool" where
  "is_space c \<longleftrightarrow> of_char c \<in> {9, 10, 11, 12, 13, 32, 160 :: nat}"

definition trim :: "string \<Rightarrow> string" where
  "trim s = rev (dropWhile is_space (rev (dropWhile is_space s)))"

text \<open>
  The pre-save hook of the Book schema: \<^verbatim>\<open>availableCopies\<close> is capped at
  \<^verbatim>\<open>totalCopies\<close>.
\<close>

definition Book_pre_save :: "Book \<Rightarrow> Book" where
  "Book_pre_save bk =
     (if availableCopies bk > totalCopies bk
      then bk\<lparr>availableCopies := totalCopies bk\<rparr> else bk)"

text \<open>
  \<^verbatim>\<open>book.save()\<close> after \<^verbatim>\<open>physical.availableCopies\<close> was modified: Mongoose validates
  the modified path (\<^verbatim>\<open>min: 0\<close>) first, then runs the pre-save hook, then writes.
\<close>

definition Book_save :: "Book \<Rightarrow> error + Book" where
  "Book_save bk =
     (if availableCopies bk < 0
      then Inl (ValidationError ''Available copies cannot be negative'')
      else Inr (Book_pre_save bk))"

text \<open>
  \<^verbatim>\<open>BookRequest.create({book, user, requestType, userNote, status, waitlistPosition})\<close>:
  the other paths take their schema defaults, \<^verbatim>\<open>userNote\<close> is trimmed and must not
  exceed 300 characters.
\<close>

definition new_request ::
  "nat \<Rightarrow> nat \<Rightarrow> requestType \<Rightarrow> string \<Rightarrow> status \<Rightarrow> int option \<Rightarrow> BookRequest" where
  "new_request bid uid rt note st pos =
     \<lparr> book = bid, user = uid, requestType = rt, status = st,
       approvedBy = None, approvedAt = None, rejectedBy = None, rejectedAt = None,
       rejectionReason = [], issuedBy = None, issuedAt = None, dueDate = None,
       returnedAt = None, returnAcceptedBy = None,
       waitlistPosition = pos, waitlistNotifiedAt = None, userNote = trim note \<rparr>"

definition BookRequest_create :: "state \<Rightarrow> BookRequest \<Rightarrow> BookRequest result" where
  "BookRequest_create s r =
     (if length (userNote r) > 300
      then (s, Inl (ValidationError ''Note cannot exceed 300 characters''))
      else (s\<lparr>requests := requests s @ [r]\<rparr>, Inr r))"

section \<open>The operations of bookRequest.service.js\<close>

definition is_active_status :: "status \<Rightarrow> bool" where
  "is_active_status st \<longleftrightarrow> st \<in> {Pending, Approved, Issued, Waitlisted}"

definition is_waitlisted_for :: "nat \<Rightarrow> BookRequest \<Rightarrow> bool" where
  "is_waitlisted_for bid r \<longleftrightarrow> book r = bid \<and> status r = Waitlisted"

definition promoteWaitlist :: "state \<Rightarrow> int \<Rightarrow> nat \<Rightarrow> state \<times> error option" where
  "promoteWaitlist s now bid =
     (case findOne (\<lambda>r. is_waitlisted_for bid r \<and> waitlistPosition r = Some 1) (requests s) of
        None \<Rightarrow> (s, None)
      | Some i \<Rightarrow>
          (let nextInLine = (requests s ! i)
                 \<lparr>status := Pending, waitlistPosition := None, waitlistNotifiedAt := Some now\<rparr>;
               saved = (requests s)[i := nextInLine]
           in case updateMany_inc (is_waitlisted_for bid) (- 1) saved of
                (rs, Some e) \<Rightarrow> (s\<lparr>requests := rs\<rparr>, Some e)
              | (rs, None) \<Rightarrow>
                  (s\<lparr>requests := rs\<rparr>,
                   if books s bid = None then Some TypeError else None)))"

definition createRequest ::
  "state \<Rightarrow> nat \<Rightarrow> nat \<Rightarrow> requestType \<Rightarrow> string \<Rightarrow> BookRequest result" where
  "createRequest s uid bid rt note =
     (case books s bid of
        None \<Rightarrow> (s, Inl (HttpError 404 ''Book not found''))
      | Some bk \<Rightarrow>
          if \<not> isActive bk then
            (s, Inl (HttpError 400 ''This book is currently unavailable''))
          else if rt = Borrow \<and> bookType bk = Digital then
            (s, Inl (HttpError 400 ''This is a digital-only book. Use download request.''))
          else if rt = Download \<and> bookType bk = Physical then
            (s, Inl (HttpError 400 ''This is a physical-only book. Use borrow request.''))
          else if rt = Download \<and> fileUrl bk = [] then
            (s, Inl (HttpError 400 ''Digital file is not yet available for this book.''))
          else
            (case findOne (\<lambda>r. book r = bid \<and> user r = uid \<and> is_active_status (status r))
                    (requests s) of
               Some i \<Rightarrow>
                 (s, Inl (HttpError 400
                    (''You already have an active '' @ status_name (status (requests s ! i))
                       @ '' request for this book.'')))
             | None \<Rightarrow>
                 if rt = Download then
                   BookRequest_create s (new_request bid uid rt note Pending None)
                 else if availableCopies bk > 0 then
                   BookRequest_create s (new_request bid uid rt note Pending None)
                 else
                   (let waitlistCount = countDocuments (is_waitlisted_for bid) (requests s)
                    in BookRequest_create s
                         (new_request bid uid rt note Waitlisted (Some (waitlistCount + 1))))))"

definition cancelRequest :: "state \<Rightarrow> nat \<Rightarrow> nat \<Rightarrow> unit result" where
  "cancelRequest s uid rid =
     (case findById rid (requests s) of
        None \<Rightarrow> (s, Inl (HttpError 404 ''Request not found''))
      | Some request \<Rightarrow>
          if user request \<noteq> uid then
            (s, Inl (HttpError 403 ''Not authorized to cancel this request''))
          else if status request \<notin> {Pending, Waitlisted} then
            (s, Inl (HttpError 400
               (''Cannot cancel a request with status: '' @ status_name (status request))))
          else
            (let wasWaitlisted = (status request = Waitlisted);
                 position = waitlistPosition request;
                 bid = book request;
                 saved = (requests s)
                   [rid := request\<lparr>status := Cancelled, waitlistPosition := None\<rparr>]
             in if wasWaitlisted then
                  (case updateMany_inc
                          (\<lambda>r. is_waitlisted_for bid r \<and> gt_query (waitlistPosition r) position)
                          (- 1) saved of
                     (rs, Some e) \<Rightarrow> (s\<lparr>requests := rs\<rparr>, Inl e)
                   | (rs, None) \<Rightarrow> (s\<lparr>requests := rs\<rparr>, Inr ()))
                else (s\<lparr>requests := saved\<rparr>, Inr ())))"

definition approveRequest :: "state \<Rightarrow> int \<Rightarrow> nat \<Rightarrow> nat \<Rightarrow> BookRequest result" where
  "approveRequest s now librarianId rid =
     (case findById rid (requests s) of
        None \<Rightarrow> (s, Inl (HttpError 404 ''Request not found''))
      | Some request \<Rightarrow>
          if status request \<noteq> Pending then
            (s, Inl (HttpError 400
               (''Cannot approve a request with status: '' @ status_name (status request))))
          else
            (let request' = request
                   \<lparr>status := Approved, approvedBy := Some librarianId, approvedAt := Some now\<rparr>;
                 s' = s\<lparr>requests := (requests s)[rid := request']\<rparr>
             in if books s (book request) = None then (s', Inl TypeError)
                else (s', Inr request')))"

definition rejectRequest :: "state \<Rightarrow> int \<Rightarrow> nat \<Rightarrow> nat \<Rightarrow> string \<Rightarrow> BookRequest result" where
  "rejectRequest s now librarianId rid reason =
     (case findById rid (requests s) of
        None \<Rightarrow> (s, Inl (HttpError 404 ''Request not found''))
      | Some request \<Rightarrow>
          if status request \<notin> {Pending, Approved} then
            (s, Inl (HttpError 400
               (''Cannot reject a request with status: '' @ status_name (status request))))
          else
            (let request' = request
                   \<lparr>status := Rejected, rejectedBy := Some librarianId, rejectedAt := Some now,
                    rejectionReason :=
                      trim (if reason = [] then ''No reason provided'' else reason)\<rparr>;
                 s' = s\<lparr>requests := (requests s)[rid := request']\<rparr>
             in if books s (book request) = None then (s', Inl TypeError)
                else (s', Inr request')))"

text \<open>
  \<^verbatim>\<open>issuedAt.getTime() + book.borrowDurationDays * 24 * 60 * 60 * 1000\<close>, evaluated
  from the left.
\<close>

definition due_time :: "int \<Rightarrow> int \<Rightarrow> int" where
  "due_time issued days = js_add issued (js_mul (js_mul (js_mul (js_mul days 24) 60) 60) 1000)"

text \<open>
  \<^verbatim>\<open>issueBook\<close> saves the book, then the request. When the due date is an invalid
  \<^verbatim>\<open>Date\<close> the save of the request throws, after the book was written.
\<close>

definition issueBook :: "state \<Rightarrow> int \<Rightarrow> nat \<Rightarrow> nat \<Rightarrow> BookRequest result" where
  "issueBook s now librarianId rid =
     (case findById rid (requests s) of
        None \<Rightarrow> (s, Inl (HttpError 404 ''Request not found''))
      | Some request \<Rightarrow>
          if status request \<noteq> Approved then
            (s, Inl (HttpError 400 ''Book can only be issued after approval''))
          else if requestType request \<noteq> Borrow then
            (s, Inl (HttpError 400 ''Issue action is only for physical borrow requests''))
          else
            (case books s (book request) of
               None \<Rightarrow> (s, Inl TypeError)
             | Some bk \<Rightarrow>
                 if availableCopies bk < 1 then
                   (s, Inl (HttpError 400 ''No physical copies available to issue''))
                 else
                   (case Book_save (bk\<lparr>availableCopies := js_add (availableCopies bk) (- 1)\<rparr>) of
                      Inl e \<Rightarrow> (s, Inl e)
                    | Inr bk' \<Rightarrow>
                        (let s1 = s\<lparr>books := (books s)(book request \<mapsto> bk')\<rparr>;
                             issuedAt' = now;
                             dueDate' = due_time issuedAt' (borrowDurationDays bk')
                         in if \<not> valid_time dueDate' then
                              (s1, Inl (ValidationError ''Cast to date failed for path dueDate''))
                            else
                              (let request' = request
                                     \<lparr>status := Issued, issuedBy := Some librarianId,
                                      issuedAt := Some issuedAt', dueDate := Some dueDate'\<rparr>
                               in (s1\<lparr>requests := (requests s)[rid := request']\<rparr>,
                                   Inr request'))))))"

definition returnBook :: "state \<Rightarrow> int \<Rightarrow> int \<Rightarrow> nat \<Rightarrow> nat \<Rightarrow> BookRequest result" where
  "returnBook s now notifiedNow librarianId rid =
     (case findById rid (requests s) of
        None \<Rightarrow> (s, Inl (HttpError 404 ''Request not found''))
      | Some request \<Rightarrow>
          if status request \<noteq> Issued then
            (s, Inl (HttpError 400 ''Only issued books can be returned''))
          else
            (case books s (book request) of
               None \<Rightarrow> (s, Inl TypeError)
             | Some bk \<Rightarrow>
                 (case Book_save (bk\<lparr>availableCopies := js_add (availableCopies bk) 1\<rparr>) of
                    Inl e \<Rightarrow> (s, Inl e)
                  | Inr bk' \<Rightarrow>
                      (let request' = request
                             \<lparr>status := Returned, returnedAt := Some now,
                              returnAcceptedBy := Some librarianId\<rparr>;
                           s1 = s\<lparr>books := (books s)(book request \<mapsto> bk'),
                                  requests := (requests s)[rid := request']\<rparr>
                       in case promoteWaitlist s1 notifiedNow (book request) of
                            (s2, Some e) \<Rightarrow> (s2, Inl e)
                          | (s2, None) \<Rightarrow> (s2, Inr request')))))"


section \<open>Overlapping calls\<close>

text \<open>
  \<^verbatim>\<open>createRequest\<close> with the state that each \<^verbatim>\<open>await\<close> meets: \<open>s1\<close> at
  \<^verbatim>\<open>Book.findById\<close>, \<open>s2\<close> at the duplicate \<^verbatim>\<open>findOne\<close>, \<open>s3\<close> at the third
  \<^verbatim>\<open>await\<close> (the \<^verbatim>\<open>create\<close> of a pending request, or \<^verbatim>\<open>countDocuments\<close>),
  \<open>s4\<close> at the \<^verbatim>\<open>create\<close> of a waitlisted request. Other calls may have completed
  in between. The result carries the state after the last \<^verbatim>\<open>await\<close> that ran.
\<close>

definition createRequest_async ::
  "state \<Rightarrow> state \<Rightarrow> state \<Rightarrow> state \<Rightarrow> nat \<Rightarrow> nat \<Rightarrow> requestType \<Rightarrow> string
     \<Rightarrow> BookRequest result" where
  "createRequest_async s1 s2 s3 s4 uid bid rt note =
     (case books s1 bid of
        None \<Rightarrow> (s1, Inl (HttpError 404 ''Book not found''))
      | Some bk \<Rightarrow>
          if \<not> isActive bk then
            (s1, Inl (HttpError 400 ''This book is currently unavailable''))
          else if rt = Borrow \<and> bookType bk = Digital then
            (s1, Inl (HttpError 400 ''This is a digital-only book. Use download request.''))
          else if rt = Download \<and> bookType bk = Physical then
            (s1, Inl (HttpError 400 ''This is a physical-only book. Use borrow request.''))
          else if rt = Download \<and> fileUrl bk = [] then
            (s1, Inl (HttpError 400 ''Digital file is not yet available for this book.''))
          else
            (case findOne (\<lambda>r. book r = bid \<and> user r = uid \<and> is_active_status (status r))
                    (requests s2) of
               Some i \<Rightarrow>
                 (s2, Inl (HttpError 400
                    (''You already have an active '' @ status_name (status (requests s2 ! i))
                       @ '' request for this book.'')))
             | None \<Rightarrow>
                 if rt = Download then
                   BookRequest_create s3 (new_request bid uid rt note Pending None)
                 else if availableCopies bk > 0 then
                   BookRequest_create s3 (new_request bid uid rt note Pending None)
                 else
                   (let waitlistCount = countDocuments (is_waitlisted_for bid) (requests s3)
                    in BookRequest_create s4
                         (new_request bid uid rt note Waitlisted (Some (waitlistCount + 1))))))"

text \<open>
  \<^verbatim>\<open>returnBook\<close> with \<open>sr\<close> the state that its two \<^verbatim>\<open>findById\<close> reads meet and
  \<open>sw\<close> the state in which its writes then run. \<^verbatim>\<open>save()\<close> validates and runs the
  pre-save hook on the document in memory and writes the modified paths only, onto the
  stored document; it throws when that document is gone.
\<close>

definition returnBook_async ::
  "state \<Rightarrow> state \<Rightarrow> int \<Rightarrow> int \<Rightarrow> nat \<Rightarrow> nat \<Rightarrow> BookRequest result" where
  "returnBook_async sr sw now notifiedNow librarianId rid =
     (case findById rid (requests sr) of
        None \<Rightarrow> (sr, Inl (HttpError 404 ''Request not found''))
      | Some request \<Rightarrow>
          if status request \<noteq> Issued then
            (sr, Inl (HttpError 400 ''Only issued books can be returned''))
          else
            (case books sr (book request) of
               None \<Rightarrow> (sr, Inl TypeError)
             | Some bk \<Rightarrow>
                 (let incremented = js_add (availableCopies bk) 1
                  in case Book_save (bk\<lparr>availableCopies := incremented\<rparr>) of
                       Inl e \<Rightarrow> (sw, Inl e)
                     | Inr bk' \<Rightarrow>
                         (case (books sw (book request), findById rid (requests sw)) of
                            (Some storedBook, Some storedRequest) \<Rightarrow>
                              (let modified =
                                     (incremented \<noteq> availableCopies bk
                                        \<or> incremented > totalCopies bk);
                                   written =
                                     (if modified
                                      then storedBook\<lparr>availableCopies := availableCopies bk'\<rparr>
                                      else storedBook);
                                   request' = request
                                     \<lparr>status := Returned, returnedAt := Some now,
                                      returnAcceptedBy := Some librarianId\<rparr>;
                                   s1 = sw\<lparr>books := (books sw)(book request \<mapsto> written),
                                          requests := (requests sw)
                                            [rid := storedRequest
                                               \<lparr>status := Returned, returnedAt := Some now,
                                                returnAcceptedBy := Some librarianId\<rparr>]\<rparr>
                               in case promoteWaitlist s1 notifiedNow (book request) of
                                    (s2, Some e) \<Rightarrow> (s2, Inl e)
                                  | (s2, None) \<Rightarrow> (s2, Inr request'))
                          | _ \<Rightarrow> (sw, Inl (WriteError ''No document found for query''))))))"

section \<open>The catalogue update of book.service.js\<close>

text \<open>
  \<^verbatim>\<open>updateBook(bookId, updateData)\<close>, for the fields of the model above: each field
  that \<^verbatim>\<open>updateData\<close> carries is assigned, then \<^verbatim>\<open>book.save()\<close> validates the
  paths whose value changed (\<^verbatim>\<open>min: 0\<close> on both counters, \<^verbatim>\<open>min: 1\<close> on the borrow
  duration; the first failing path in schema order names the error) and runs the
  pre-save hook.
\<close>

record BookUpdate =
  u_bookType :: "bookType option"
  u_totalCopies :: "int option"
  u_availableCopies :: "int option"
  u_fileUrl :: "string option"
  u_borrowDurationDays :: "int option"
  u_isActive :: "bool option"

definition assigned :: "'a option \<Rightarrow> 'a \<Rightarrow> 'a" where
  "assigned new old = (case new of None \<Rightarrow> old | Some v \<Rightarrow> v)"

definition modified_below :: "int option \<Rightarrow> int \<Rightarrow> int \<Rightarrow> bool" where
  "modified_below new old lo = (case new of None \<Rightarrow> False | Some v \<Rightarrow> v \<noteq> old \<and> v < lo)"

definition updateBook :: "state \<Rightarrow> nat \<Rightarrow> BookUpdate \<Rightarrow> Book result" where
  "updateBook s bid upd =
     (case books s bid of
        None \<Rightarrow> (s, Inl (HttpError 404 ''Book not found''))
      | Some bk \<Rightarrow>
          (let bk1 = bk\<lparr> bookType := assigned (u_bookType upd) (bookType bk),
                         totalCopies := assigned (u_totalCopies upd) (totalCopies bk),
                         availableCopies := assigned (u_availableCopies upd) (availableCopies bk),
                         fileUrl := assigned (u_fileUrl upd) (fileUrl bk),
                         borrowDurationDays :=
                           assigned (u_borrowDurationDays upd) (borrowDurationDays bk),
                         isActive := assigned (u_isActive upd) (isActive bk) \<rparr>
           in if modified_below (u_totalCopies upd) (totalCopies bk) 0 then
                (s, Inl (ValidationError ''Total copies cannot be negative''))
              else if modified_below (u_availableCopies upd) (availableCopies bk) 0 then
                (s, Inl (ValidationError ''Available copies cannot be negative''))
              else if modified_below (u_borrowDurationDays upd) (borrowDurationDays bk) 1 then
                (s, Inl (ValidationError ''Borrow duration must be at least 1 day''))
              else
                (s\<lparr>books := (books s)(bid \<mapsto> Book_pre_save bk1)\<rparr>, Inr (Book_pre_save bk1))))"

section \<open>Runs of the system\<close>

text \<open>
  The calls that reach the request service through the routes, and the catalogue update,
  with the clock readings they make. A run applies them one after the other; a call that
  throws leaves the state the operation left behind.
\<close>

datatype action =
    CreateRequest nat nat requestType string
  | CancelRequest nat nat
  | ApproveRequest int nat nat
  | RejectRequest int nat nat string
  | IssueBook int nat nat
  | ReturnBook int int nat nat
  | UpdateBook nat BookUpdate

fun step :: "state \<Rightarrow> action \<Rightarrow> state" where
  "step s (CreateRequest uid bid rt note) = fst (createRequest s uid bid rt note)"
| "step s (CancelRequest uid rid) = fst (cancelRequest s uid rid)"
| "step s (ApproveRequest now lib rid) = fst (approveRequest s now lib rid)"
| "step s (RejectRequest now lib rid reason) = fst (rejectRequest s now lib rid reason)"
| "step s (IssueBook now lib rid) = fst (issueBook s now lib rid)"
| "step s (ReturnBook now notified lib rid) = fst (returnBook s now notified lib rid)"
| "step s (UpdateBook bid upd) = fst (updateBook s bid upd)"

definition run :: "state \<Rightarrow> action list \<Rightarrow> state" where
  "run s acts = foldl step s acts"

section \<open>Derived notions used in the statements\<close>

text \<open>The effect of \<^verbatim>\<open>$inc\<close> on one document whose position is a number.\<close>

definition shift_position :: "int \<Rightarrow> BookRequest \<Rightarrow> BookRequest" where
  "shift_position d r = r\<lparr>waitlistPosition := map_option (\<lambda>p. p + d) (waitlistPosition r)\<rparr>"


text \<open>
  The waitlist of a title: the positions of its waitlisted requests, in collection order.
  It is contiguous when the set of these positions is exactly \<open>{1, \<dots>, N}\<close> for
  \<open>N\<close> the number of waitlisted requests.
\<close>

definition waitlist_positions :: "state \<Rightarrow> nat \<Rightarrow> int option list" where
  "waitlist_positions s bid = map waitlistPosition (filter (is_waitlisted_for bid) (requests s))"

definition contiguous :: "int option list \<Rightarrow> bool" where
  "contiguous ps \<longleftrightarrow> set ps = Some ` {1 .. int (length ps)}"

definition waitlist_contiguous :: "state \<Rightarrow> nat \<Rightarrow> bool" where
  "waitlist_contiguous s bid \<longleftrightarrow> contiguous (waitlist_positions s bid)"

text \<open>The request that \<^verbatim>\<open>promoteWaitlist\<close> saves for the head of the queue.\<close>

definition promoted :: "int \<Rightarrow> BookRequest \<Rightarrow> BookRequest" where
  "promoted now r = r\<lparr>status := Pending, waitlistPosition := None, waitlistNotifiedAt := Some now\<rparr>"

text \<open>The counters of every title are within bounds.\<close>

definition copies_in_bounds :: "state \<Rightarrow> bool" where
  "copies_in_bounds s \<longleftrightarrow>
     (\<forall>bk\<in>ran (books s). 0 \<le> availableCopies bk \<and> availableCopies bk \<le> totalCopies bk)"

text \<open>The number of active (non-terminal) requests of a requester for a title.\<close>

definition active_count :: "state \<Rightarrow> nat \<Rightarrow> nat \<Rightarrow> nat" where
  "active_count s bid uid =
     length (filter (\<lambda>r. book r = bid \<and> user r = uid \<and> is_active_status (status r))
               (requests s))"

text \<open>Every issued request is a borrow request.\<close>

definition issued_are_borrows :: "state \<Rightarrow> bool" where
  "issued_are_borrows s \<longleftrightarrow>
     (\<forall>r\<in>set (requests s). status r = Issued \<longrightarrow> requestType r = Borrow)"

text \<open>
  What \<^verbatim>\<open>cancelRequest\<close> does to a position when the request at position \<open>k\<close>
  leaves the queue.
\<close>

definition renumber :: "int \<Rightarrow> int option \<Rightarrow> int option" where
  "renumber k q = (if gt_query q (Some k) then map_option (\<lambda>p. p + (- 1)) q else q)"

text \<open>
  A request evolves into another one when title, requester and kind are kept, it does not
  become active again, and it becomes issued only if it is a borrow request.
\<close>

definition evolves :: "BookRequest \<Rightarrow> BookRequest \<Rightarrow> bool" where
  "evolves r r' \<longleftrightarrow>
     book r' = book r \<and> user r' = user r \<and> requestType r' = requestType r
     \<and> (is_active_status (status r') \<longrightarrow> is_active_status (status r))
     \<and> (status r' = Issued \<longrightarrow> status r = Issued \<or> requestType r = Borrow)"

section \<open>Example states\<close>

text \<open>
  The scenario of the specification: one physical title with a single copy, requester
  10 holding it, requesters 11 and 12 queued behind.
\<close>

definition book_one :: Book where
  "book_one = \<lparr> bookType = Physical, totalCopies = 1, availableCopies = 1, fileUrl = [],
                 borrowDurationDays = 14, isActive = True \<rparr>"

definition book_digital :: Book where
  "book_digital = \<lparr> bookType = Digital, totalCopies = 2, availableCopies = 2,
                     fileUrl = ''https://files/book.pdf'', borrowDurationDays = 14,
                     isActive = True \<rparr>"

definition req_approved :: BookRequest where
  "req_approved = (new_request 0 10 Borrow [] Pending None)
     \<lparr>status := Approved, approvedBy := Some 99, approvedAt := Some 100\<rparr>"

definition req_issued :: BookRequest where
  "req_issued = req_approved
     \<lparr>status := Issued, issuedBy := Some 99, issuedAt := Some 200, dueDate := Some 1209600200\<rparr>"

definition library0 :: state where
  "library0 = \<lparr> books = [0 \<mapsto> book_one], requests = [] \<rparr>"

definition library_digital :: state where
  "library_digital = \<lparr> books = [0 \<mapsto> book_digital], requests = [] \<rparr>"

definition library_approved :: state where
  "library_approved = \<lparr> books = [0 \<mapsto> book_one], requests = [req_approved] \<rparr>"

definition library_one_waiting :: state where
  "library_one_waiting =
     \<lparr> books = [0 \<mapsto> book_one\<lparr>availableCopies := 0\<rparr>],
       requests = [req_issued, new_request 0 11 Borrow [] Waitlisted (Some 1)] \<rparr>"

definition library_two_waiting :: state where
  "library_two_waiting =
     \<lparr> books = [0 \<mapsto> book_one\<lparr>availableCopies := 0\<rparr>],
       requests = [req_issued, new_request 0 11 Borrow [] Waitlisted (Some 1),
                   new_request 0 12 Borrow [] Waitlisted (Some 2)] \<rparr>"

definition library_issued :: state where
  "library_issued =
     \<lparr> books = [0 \<mapsto> book_one\<lparr>availableCopies := 0\<rparr>], requests = [req_issued] \<rparr>"

text \<open>
  The copy is out and the catalogue was edited meanwhile: in \<open>library_capped\<close> the
  available count was set back to 1, in \<open>library_none\<close> the total was set to 0 with
  requester 11 waiting.
\<close>

definition library_capped :: state where
  "library_capped = \<lparr> books = [0 \<mapsto> book_one], requests = [req_issued] \<rparr>"

definition library_none :: state where
  "library_none =
     \<lparr> books = [0 \<mapsto> book_one\<lparr>totalCopies := 0, availableCopies := 0\<rparr>],
       requests = [req_issued, new_request 0 11 Borrow [] Waitlisted (Some 1)] \<rparr>"

text \<open>An approved download request for the digital title.\<close>

definition library_download :: state where
  "library_download =
     \<lparr> books = [0 \<mapsto> book_digital],
       requests = [(new_request 0 10 Download [] Pending None)
                     \<lparr>status := Approved, approvedBy := Some 99, approvedAt := Some 100\<rparr>] \<rparr>"

text \<open>Requester 10 has a pending request and the title was deactivated afterwards.\<close>

definition library_inactive :: state where
  "library_inactive =
     \<lparr> books = [0 \<mapsto> book_one\<lparr>isActive := False\<rparr>],
       requests = [new_request 0 10 Borrow [] Pending None] \<rparr>"

text \<open>
  The request is approved and the catalogue was edited meanwhile: in \<open>library_long_loan\<close>
  the borrow duration was set to 100 000 000 days, in \<open>library_many\<close> the title has
  \<open>10 ^ 16\<close> copies.
\<close>

definition library_long_loan :: state where
  "library_long_loan =
     \<lparr> books = [0 \<mapsto> book_one\<lparr>borrowDurationDays := 100000000\<rparr>],
       requests = [req_approved] \<rparr>"

definition library_many :: state where
  "library_many =
     \<lparr> books = [0 \<mapsto> book_one\<lparr>totalCopies := 10000000000000000,
                                availableCopies := 10000000000000000\<rparr>],
       requests = [req_approved] \<rparr>"

text \<open>
  The copy is out and the catalogue was edited meanwhile: in \<open>library_saturated\<close> the
  counters were set to \<open>2 ^ 53\<close> available of \<open>2 ^ 54\<close> copies, in
  \<open>library_withdrawn\<close> the total was set to 0.
\<close>

definition library_saturated :: state where
  "library_saturated =
     \<lparr> books = [0 \<mapsto> book_one\<lparr>totalCopies := 18014398509481984,
                                availableCopies := 9007199254740992\<rparr>],
       requests = [req_issued] \<rparr>"

definition library_withdrawn :: state where
  "library_withdrawn =
     \<lparr> books = [0 \<mapsto> book_one\<lparr>totalCopies := 0, availableCopies := 0\<rparr>],
       requests = [req_issued] \<rparr>"

text \<open>Requester 10 holds a pending request, and holds two of them.\<close>

definition library_pending :: state where
  "library_pending =
     \<lparr> books = [0 \<mapsto> book_one], requests = [new_request 0 10 Borrow [] Pending None] \<rparr>"

definition library_twice_pending :: state where
  "library_twice_pending =
     \<lparr> books = [0 \<mapsto> book_one],
       requests = [new_request 0 10 Borrow [] Pending None,
                   new_request 0 10 Borrow [] Pending None] \<rparr>"

text \<open>Requesters 11 and 12 both wait at position 1.\<close>

definition library_queue_clash :: state where
  "library_queue_clash =
     \<lparr> books = [0 \<mapsto> book_one\<lparr>availableCopies := 0\<rparr>],
       requests = [req_issued, new_request 0 11 Borrow [] Waitlisted (Some 1),
                   new_request 0 12 Borrow [] Waitlisted (Some 1)] \<rparr>"

definition no_update :: BookUpdate where
  "no_update = \<lparr> u_bookType = None, u_totalCopies = None, u_availableCopies = None,
                 u_fileUrl = None, u_borrowDurationDays = None, u_isActive = None \<rparr>"

text \<open>The scenario of the specification as a run.\<close>

definition scenario :: "action list" where
  "scenario =
     [CreateRequest 10 0 Borrow [], ApproveRequest 100 99 0, IssueBook 200 99 0,
      CreateRequest 11 0 Borrow [], CreateRequest 12 0 Borrow [],
      CancelRequest 11 1, ReturnBook 300 301 99 0]"

section \<open>Facts about JavaScript numbers\<close>

lemma double_of_int_exact:
  assumes "\<bar>n\<bar> \<le> 2 ^ 53"
  shows "double_of_int n = n"
proof (cases "\<bar>n\<bar> < 2 ^ 53")
  case True
  then have "bitlen \<bar>n\<bar> \<le> 53" by (simp add: bitlen_le_iff_power)
  then show ?thesis by (simp add: double_of_int_def)
next
  case False
  with assms have m: "\<bar>n\<bar> = 2 ^ 53" by simp
  have "bitlen (2 ^ 53) = 54" by code_simp
  then have b: "bitlen \<bar>n\<bar> = 54" using m by simp
  have "sgn n * \<bar>n\<bar> = n" by (simp add: sgn_if)
  then show ?thesis
    unfolding double_of_int_def b Let_def by (simp add: m)
qed

lemma double_of_int_nonneg: "0 \<le> n \<Longrightarrow> 0 \<le> double_of_int n"
  by (auto simp: double_of_int_def Let_def sgn_if pos_imp_zdiv_nonneg_iff)

lemma is_double_dvd:
  assumes "is_double n" "0 < bitlen \<bar>n\<bar> - 53"
  shows "2 ^ nat (bitlen \<bar>n\<bar> - 53) dvd n"
proof -
  let ?u = "(2::int) ^ nat (bitlen \<bar>n\<bar> - 53)"
  from assms have "n = sgn n * ((if 2 * (\<bar>n\<bar> mod ?u) < ?u \<or> (2 * (\<bar>n\<bar> mod ?u) = ?u \<and> even (\<bar>n\<bar> div ?u))
        then \<bar>n\<bar> div ?u else \<bar>n\<bar> div ?u + 1) * ?u)"
    by (simp add: is_double_def double_of_int_def Let_def)
  then show ?thesis by (metis dvd_triv_right dvd_mult)
qed

lemma double_of_int_floor:
  assumes "0 \<le> x" "0 < bitlen x - 53"
  shows "x - x mod 2 ^ nat (bitlen x - 53) \<le> double_of_int x"
proof -
  let ?u = "(2::int) ^ nat (bitlen x - 53)"
  have u: "0 < ?u" by simp
  have x: "x = x div ?u * ?u + x mod ?u" by (rule div_mult_mod_eq [symmetric])
  have "x div ?u * ?u \<le> (if 2 * (x mod ?u) < ?u \<or> (2 * (x mod ?u) = ?u \<and> even (x div ?u))
        then x div ?u else x div ?u + 1) * ?u"
    by (simp add: distrib_right)
  moreover have "x - x mod ?u = x div ?u * ?u" using x by linarith
  moreover have "sgn x = 1 \<or> x = 0" using assms(1) by (auto simp: sgn_if)
  ultimately show ?thesis
    using assms by (auto simp: double_of_int_def Let_def)
qed

lemma double_of_int_succ:
  assumes a: "0 \<le> a" and d: "is_double a"
  shows "a \<le> double_of_int (a + 1)"
proof (cases "0 < bitlen (a + 1) - 53")
  case False
  moreover have "\<bar>a + 1\<bar> = a + 1" using a by simp
  ultimately show ?thesis by (simp add: double_of_int_def Let_def)
next
  case True
  let ?x = "a + 1"
  let ?u = "(2::int) ^ nat (bitlen ?x - 53)"
  have x0: "0 < ?x" using a by simp
  have upos: "2 \<le> ?u"
  proof -
    from True have "1 \<le> nat (bitlen ?x - 53)" by simp
    then have "(2::int) ^ 1 \<le> ?u" by (intro power_increasing) simp_all
    then show ?thesis by simp
  qed
  have "?x mod ?u \<le> 1"
  proof (cases "bitlen a = bitlen ?x")
    case same: True
    with True a have "0 < bitlen \<bar>a\<bar> - 53" by simp
    from is_double_dvd [OF d this] same a have "?u dvd a" by simp
    then have "?x mod ?u = 1 mod ?u" by (metis mod_add_self1 dvd_eq_mod_eq_0 mod_add_left_eq add.commute add_0)
    also have "\<dots> = 1"
    proof (rule mod_pos_pos_trivial)
      show "(0::int) \<le> 1" by simp
      show "1 < ?u" using upos by linarith
    qed
    finally show ?thesis by simp
  next
    case diff: False
    from bitlen_bounds [OF x0] have lb: "2 ^ nat (bitlen ?x - 1) \<le> ?x" by simp
    have "bitlen a \<le> bitlen ?x - 1"
    proof -
      have "bitlen a \<le> bitlen ?x"
        using bitlen_le_iff_power [of a "bitlen ?x"] bitlen_bounds [OF x0] bitlen_nonneg [of ?x]
        by auto
      with diff show ?thesis by simp
    qed
    then have "a < 2 ^ nat (bitlen ?x - 1)"
      using bitlen_le_iff_power [of a "bitlen ?x - 1"] by simp
    with lb have eq: "?x = 2 ^ nat (bitlen ?x - 1)" by simp
    have "nat (bitlen ?x - 53) \<le> nat (bitlen ?x - 1)" by simp
    then have "?u dvd (2::int) ^ nat (bitlen ?x - 1)" by (rule le_imp_power_dvd)
    with eq have "?u dvd ?x" by simp
    then show ?thesis by simp
  qed
  with double_of_int_floor [OF _ True] x0 show ?thesis by simp
qed

lemma js_add_one_ge: "0 \<le> a \<Longrightarrow> a \<le> js_add a 1"
  by (simp add: js_add_def double_of_int_succ)

lemma js_add_exact: "\<bar>a + b\<bar> \<le> 2 ^ 53 \<Longrightarrow> js_add a b = a + b"
  by (simp add: js_add_def double_of_int_exact)

lemma js_mul_exact: "\<bar>a * b\<bar> \<le> 2 ^ 53 \<Longrightarrow> js_mul a b = a * b"
  by (simp add: js_mul_def double_of_int_exact)

lemma js_add_nonneg: "0 \<le> a + b \<Longrightarrow> 0 \<le> js_add a b"
  by (simp add: js_add_def double_of_int_nonneg)

lemma double_of_int_neg:
  assumes "n < 0"
  shows "double_of_int n < 0"
proof (cases "0 < bitlen \<bar>n\<bar> - 53")
  case False
  with assms show ?thesis by (simp add: double_of_int_def Let_def)
next
  case True
  let ?m = "\<bar>n\<bar>"
  let ?u = "(2::int) ^ nat (bitlen ?m - 53)"
  have m0: "0 < ?m" using assms by simp
  from bitlen_bounds [OF m0] have "2 ^ nat (bitlen ?m - 1) \<le> ?m" by simp
  moreover have "?u \<le> 2 ^ nat (bitlen ?m - 1)"
    by (intro power_increasing) simp_all
  ultimately have "?u \<le> ?m" by linarith
  moreover have "0 < ?u" by simp
  ultimately have "0 < ?m div ?u" by (simp only: pos_imp_zdiv_pos_iff)
  then have "0 < (if 2 * (?m mod ?u) < ?u \<or> (2 * (?m mod ?u) = ?u \<and> even (?m div ?u))
        then ?m div ?u else ?m div ?u + 1) * ?u"
    by simp
  moreover have "sgn n = - 1" using assms by simp
  ultimately show ?thesis
    using True by (simp add: double_of_int_def Let_def)
qed

lemma js_add_neg_iff: "js_add a b < 0 \<longleftrightarrow> a + b < 0"
proof (cases "a + b < 0")
  case True
  then show ?thesis by (simp add: js_add_def double_of_int_neg)
next
  case False
  then have "0 \<le> js_add a b" by (simp add: js_add_nonneg)
  with False show ?thesis by simp
qed


text \<open>Beyond \<open>2 ^ 53\<close> adding or subtracting 1 can leave a Number unchanged.\<close>

lemma saturated_increment: "js_add 9007199254740992 1 = 9007199254740992"
  by code_simp

lemma lost_decrement: "js_add 10000000000000000 (- 1) = 10000000000000000"
  by code_simp

section \<open>Facts about the primitives\<close>

lemmas example_defs =
  book_one_def book_digital_def req_approved_def req_issued_def library0_def
  library_digital_def library_approved_def library_one_waiting_def library_two_waiting_def
  library_issued_def library_capped_def library_none_def no_update_def library_inactive_def
  library_download_def library_long_loan_def library_many_def library_saturated_def
  library_withdrawn_def library_pending_def library_twice_pending_def library_queue_clash_def
  new_request_def trim_def is_waitlisted_for_def is_active_status_def

lemma findOne_None_iff: "findOne P rs = None \<longleftrightarrow> (\<forall>r\<in>set rs. \<not> P r)"
  by (simp add: findOne_def list_ex_iff)

lemma first_match_props:
  "\<exists>r\<in>set rs. P r \<Longrightarrow>
   length (takeWhile (\<lambda>r. \<not> P r) rs) < length rs
   \<and> P (rs ! length (takeWhile (\<lambda>r. \<not> P r) rs))
   \<and> (\<forall>j < length (takeWhile (\<lambda>r. \<not> P r) rs). \<not> P (rs ! j))"
proof (induction rs)
  case Nil
  then show ?case by simp
next
  case (Cons a rs)
  show ?case
  proof (cases "P a")
    case True
    then show ?thesis by simp
  next
    case False
    with Cons.prems have "\<exists>r\<in>set rs. P r" by auto
    from Cons.IH [OF this] False show ?thesis
      by (auto simp: nth_Cons split: nat.splits)
  qed
qed

lemma findOne_SomeD:
  assumes "findOne P rs = Some i"
  shows "i < length rs" and "P (rs ! i)" and "\<forall>j<i. \<not> P (rs ! j)"
proof -
  from assms have ex: "\<exists>r\<in>set rs. P r" and i: "i = length (takeWhile (\<lambda>r. \<not> P r) rs)"
    by (auto simp: findOne_def list_ex_iff split: if_splits)
  from first_match_props [OF ex] show "i < length rs" and "P (rs ! i)" and "\<forall>j<i. \<not> P (rs ! j)"
    unfolding i by blast+
qed

lemma updateMany_inc_map:
  "(\<forall>r\<in>set rs. P r \<longrightarrow> waitlistPosition r \<noteq> None) \<Longrightarrow>
   updateMany_inc P d rs = (map (\<lambda>r. if P r then shift_position d r else r) rs, None)"
  by (induction rs) (auto simp: shift_position_def)

lemma findById_Some: "rid < length rs \<Longrightarrow> findById rid rs = Some (rs ! rid)"
  by (simp add: findById_def)

section \<open>Creating a request\<close>

text \<open>
  Claim C7. A borrow request for an active title that has no available copy, when every
  other guard passes (the title is not digital-only, the requester has no active request
  for it, the note fits), does not fail: the new request is waitlisted, its position is
  the number of requests already waitlisted for the title plus one, and the Book
  collection is left as it was, so no copy is reserved.
\<close>

theorem createRequest_exhausted_waitlists:
  assumes bk: "books s bid = Some bk"
    and act: "isActive bk"
    and ty: "bookType bk \<noteq> Digital"
    and nodup: "\<forall>r\<in>set (requests s). \<not> (book r = bid \<and> user r = uid \<and> is_active_status (status r))"
    and nlen: "length (trim note) \<le> 300"
    and zero: "availableCopies bk = 0"
  shows "\<exists>r. createRequest s uid bid Borrow note = (s\<lparr>requests := requests s @ [r]\<rparr>, Inr r)
           \<and> status r = Waitlisted
           \<and> waitlistPosition r = Some (int (length (filter (is_waitlisted_for bid) (requests s))) + 1)
           \<and> book r = bid \<and> user r = uid \<and> requestType r = Borrow
           \<and> books (fst (createRequest s uid bid Borrow note)) = books s"
proof -
  have f: "findOne (\<lambda>r. book r = bid \<and> user r = uid \<and> is_active_status (status r)) (requests s) = None"
    using nodup by (simp add: findOne_None_iff)
  show ?thesis
    using bk act ty nlen zero
    by (simp add: createRequest_def f BookRequest_create_def new_request_def countDocuments_def Let_def)
qed


text \<open>
  Claim C9, as amended. A borrow request for an active title that is not digital-only and
  has at least one available copy, by a requester without an active request for it and
  with a note of at most 300 characters after trimming, returns a pending request without
  a waitlist position and leaves the Book collection unchanged: no copy is reserved when
  the request is created.
\<close>

theorem createRequest_available_pending:
  assumes bk: "books s bid = Some bk"
    and act: "isActive bk"
    and ty: "bookType bk \<noteq> Digital"
    and nodup: "\<forall>r\<in>set (requests s). \<not> (book r = bid \<and> user r = uid \<and> is_active_status (status r))"
    and nlen: "length (trim note) \<le> 300"
    and avail: "0 < availableCopies bk"
  shows "\<exists>r. createRequest s uid bid Borrow note = (s\<lparr>requests := requests s @ [r]\<rparr>, Inr r)
           \<and> status r = Pending \<and> waitlistPosition r = None
           \<and> book r = bid \<and> user r = uid \<and> requestType r = Borrow
           \<and> books (fst (createRequest s uid bid Borrow note)) = books s"
proof -
  have f: "findOne (\<lambda>r. book r = bid \<and> user r = uid \<and> is_active_status (status r)) (requests s) = None"
    using nodup by (simp add: findOne_None_iff)
  show ?thesis
    using bk act ty nlen avail
    by (simp add: createRequest_def f BookRequest_create_def new_request_def)
qed

section \<open>Issuing a copy\<close>

lemma due_time_exact:
  assumes "0 \<le> issued" "0 \<le> days" "issued + days * 86400000 \<le> 8640000000000000"
  shows "due_time issued days = issued + days * (24 * 60 * 60 * 1000)"
proof -
  have 1: "js_mul days 24 = days * 24" using assms by (intro js_mul_exact) simp
  have 2: "js_mul (days * 24) 60 = days * 24 * 60" using assms by (intro js_mul_exact) simp
  have 3: "js_mul (days * 24 * 60) 60 = days * 24 * 60 * 60" using assms by (intro js_mul_exact) simp
  have 4: "js_mul (days * 24 * 60 * 60) 1000 = days * 24 * 60 * 60 * 1000"
    using assms by (intro js_mul_exact) simp
  have 5: "js_add issued (days * 24 * 60 * 60 * 1000) = issued + days * 24 * 60 * 60 * 1000"
    using assms by (intro js_add_exact) simp
  show ?thesis unfolding due_time_def 1 2 3 4 5 by simp
qed

lemma Book_pre_save_duration [simp]: "borrowDurationDays (Book_pre_save bk) = borrowDurationDays bk"
  by (simp add: Book_pre_save_def)

lemma issueBook_eq:
  assumes rid: "rid < length (requests s)"
    and st: "status (requests s ! rid) = Approved"
    and ty: "requestType (requests s ! rid) = Borrow"
    and bk: "books s (book (requests s ! rid)) = Some bk"
    and av: "1 \<le> availableCopies bk"
  shows "issueBook s now lib rid =
     (if \<not> valid_time (due_time now (borrowDurationDays bk)) then
        (s\<lparr>books := (books s)(book (requests s ! rid) \<mapsto>
              Book_pre_save (bk\<lparr>availableCopies := js_add (availableCopies bk) (- 1)\<rparr>))\<rparr>,
         Inl (ValidationError ''Cast to date failed for path dueDate''))
      else
        (s\<lparr>books := (books s)(book (requests s ! rid) \<mapsto>
              Book_pre_save (bk\<lparr>availableCopies := js_add (availableCopies bk) (- 1)\<rparr>)),
           requests := (requests s)[rid := (requests s ! rid)
              \<lparr>status := Issued, issuedBy := Some lib, issuedAt := Some now,
               dueDate := Some (due_time now (borrowDurationDays bk))\<rparr>]\<rparr>,
         Inr ((requests s ! rid)
              \<lparr>status := Issued, issuedBy := Some lib, issuedAt := Some now,
               dueDate := Some (due_time now (borrowDurationDays bk))\<rparr>)))"
proof -
  have "\<not> js_add (availableCopies bk) (- 1) < 0"
    using av by (simp add: js_add_neg_iff)
  then have sv: "Book_save (bk\<lparr>availableCopies := js_add (availableCopies bk) (- 1)\<rparr>)
      = Inr (Book_pre_save (bk\<lparr>availableCopies := js_add (availableCopies bk) (- 1)\<rparr>))"
    by (simp add: Book_save_def)
  show ?thesis
    using rid st ty bk av
    by (simp add: issueBook_def findById_Some sv Let_def)
qed

lemma issueBook_refused:
  assumes "rid < length (requests s)"
    and "status (requests s ! rid) \<noteq> Approved \<or> requestType (requests s ! rid) \<noteq> Borrow
         \<or> books s (book (requests s ! rid)) = None
         \<or> (\<exists>bk. books s (book (requests s ! rid)) = Some bk \<and> availableCopies bk < 1)"
  shows "\<exists>e. issueBook s now lib rid = (s, Inl e)"
  using assms by (auto simp: issueBook_def findById_Some)

text \<open>
  Claim C4, as amended. For an existing request whose title exists and respects
  \<open>availableCopies \<le> totalCopies\<close>, with whole-number counters, duration and clock,
  issuing succeeds exactly when the request is approved, is a borrow request, the title
  has at least one available copy and the due time (the issue time plus the borrow
  duration in days, as JavaScript computes it) is within the range of a \<^verbatim>\<open>Date\<close>.
  On success the request becomes issued with that due time, which is the exact sum in
  milliseconds when clock and duration are non-negative and the sum is in range, and the
  available copies drop by exactly one when there were at most \<open>2 ^ 53\<close>. An approved
  download request is refused with the kind-mismatch error, which is not the error raised
  for a wrong status.
\<close>

theorem issueBook_succeeds_iff:
  assumes rid: "rid < length (requests s)"
    and bk: "books s (book (requests s ! rid)) = Some bk"
    and cap: "availableCopies bk \<le> totalCopies bk"
  shows "((\<exists>r. snd (issueBook s now lib rid) = Inr r) \<longleftrightarrow>
            status (requests s ! rid) = Approved \<and> requestType (requests s ! rid) = Borrow
            \<and> 1 \<le> availableCopies bk \<and> valid_time (due_time now (borrowDurationDays bk)))
       \<and> ((\<exists>r. snd (issueBook s now lib rid) = Inr r) \<longrightarrow>
            (availableCopies bk \<le> 2 ^ 53 \<longrightarrow>
               books (fst (issueBook s now lib rid)) (book (requests s ! rid))
                 = Some (bk\<lparr>availableCopies := availableCopies bk - 1\<rparr>))
            \<and> status (requests (fst (issueBook s now lib rid)) ! rid) = Issued
            \<and> dueDate (requests (fst (issueBook s now lib rid)) ! rid)
                 = Some (due_time now (borrowDurationDays bk))
            \<and> (0 \<le> now \<and> 0 \<le> borrowDurationDays bk
                 \<and> now + borrowDurationDays bk * 86400000 \<le> 8640000000000000 \<longrightarrow>
               due_time now (borrowDurationDays bk)
                 = now + borrowDurationDays bk * (24 * 60 * 60 * 1000)))
       \<and> (status (requests s ! rid) = Approved \<and> requestType (requests s ! rid) = Download \<longrightarrow>
            issueBook s now lib rid
              = (s, Inl (HttpError 400 ''Issue action is only for physical borrow requests''))
            \<and> snd (issueBook s now lib rid)
              \<noteq> Inl (HttpError 400 ''Book can only be issued after approval''))"
proof (cases "status (requests s ! rid) = Approved \<and> requestType (requests s ! rid) = Borrow
              \<and> 1 \<le> availableCopies bk")
  case False
  then have "status (requests s ! rid) \<noteq> Approved \<or> requestType (requests s ! rid) \<noteq> Borrow
         \<or> books s (book (requests s ! rid)) = None
         \<or> (\<exists>bk. books s (book (requests s ! rid)) = Some bk \<and> availableCopies bk < 1)"
    using bk by auto
  from issueBook_refused [OF rid this] obtain e where e: "issueBook s now lib rid = (s, Inl e)"
    by blast
  have dl: "status (requests s ! rid) = Approved \<and> requestType (requests s ! rid) = Download \<longrightarrow>
            issueBook s now lib rid
              = (s, Inl (HttpError 400 ''Issue action is only for physical borrow requests''))"
    using rid by (simp add: issueBook_def findById_Some)
  have ne: "HttpError 400 ''Issue action is only for physical borrow requests''
      \<noteq> HttpError 400 ''Book can only be issued after approval''" by simp
  from False e dl ne show ?thesis by auto
next
  case True
  then have st: "status (requests s ! rid) = Approved"
    and ty: "requestType (requests s ! rid) = Borrow" and av: "1 \<le> availableCopies bk"
    by simp_all
  note eq = issueBook_eq [OF rid st ty bk av, of now lib]
  have exact: "Book_pre_save (bk\<lparr>availableCopies := js_add (availableCopies bk) (- 1)\<rparr>)
      = bk\<lparr>availableCopies := availableCopies bk - 1\<rparr>" if "availableCopies bk \<le> 2 ^ 53"
  proof -
    have "js_add (availableCopies bk) (- 1) = availableCopies bk + (- 1)"
      using that av by (intro js_add_exact) simp
    then show ?thesis using cap by (simp add: Book_pre_save_def)
  qed
  have due: "0 \<le> now \<and> 0 \<le> borrowDurationDays bk
       \<and> now + borrowDurationDays bk * 86400000 \<le> 8640000000000000 \<longrightarrow>
     due_time now (borrowDurationDays bk) = now + borrowDurationDays bk * (24 * 60 * 60 * 1000)"
    using due_time_exact [of now "borrowDurationDays bk"] by blast
  show ?thesis
  proof (cases "valid_time (due_time now (borrowDurationDays bk))")
    case False
    with eq have "snd (issueBook s now lib rid)
        = Inl (ValidationError ''Cast to date failed for path dueDate'')" by simp
    with False True ty show ?thesis by simp
  next
    case valid: True
    with eq have s': "fst (issueBook s now lib rid) =
        s\<lparr>books := (books s)(book (requests s ! rid) \<mapsto>
              Book_pre_save (bk\<lparr>availableCopies := js_add (availableCopies bk) (- 1)\<rparr>)),
           requests := (requests s)[rid := (requests s ! rid)
              \<lparr>status := Issued, issuedBy := Some lib, issuedAt := Some now,
               dueDate := Some (due_time now (borrowDurationDays bk))\<rparr>]\<rparr>"
      and out: "\<exists>r. snd (issueBook s now lib rid) = Inr r"
      by simp_all
    have b1: "availableCopies bk \<le> 2 ^ 53 \<longrightarrow>
               books (fst (issueBook s now lib rid)) (book (requests s ! rid))
                 = Some (bk\<lparr>availableCopies := availableCopies bk - 1\<rparr>)"
      unfolding s' using exact by simp
    have b2: "status (requests (fst (issueBook s now lib rid)) ! rid) = Issued"
      and b3: "dueDate (requests (fst (issueBook s now lib rid)) ! rid)
                 = Some (due_time now (borrowDurationDays bk))"
      unfolding s' using rid by simp_all
    from True valid out b1 b2 b3 due ty show ?thesis by simp
  qed
qed

section \<open>Cancelling a request\<close>

lemma gt_query_Some: "gt_query q (Some k) \<longleftrightarrow> (\<exists>p. q = Some p \<and> k < p)"
  by (cases q) auto

lemma cancelRequest_waitlisted_eq:
  assumes rid: "rid < length (requests s)"
    and own: "user (requests s ! rid) = uid"
    and wl: "status (requests s ! rid) = Waitlisted"
    and pos: "waitlistPosition (requests s ! rid) = Some k"
  shows "cancelRequest s uid rid =
     (s\<lparr>requests := map (\<lambda>r. if is_waitlisted_for (book (requests s ! rid)) r
                                  \<and> gt_query (waitlistPosition r) (Some k)
                               then shift_position (- 1) r else r)
          ((requests s)[rid := (requests s ! rid)\<lparr>status := Cancelled, waitlistPosition := None\<rparr>])\<rparr>,
      Inr ())"
proof -
  let ?P = "\<lambda>r. is_waitlisted_for (book (requests s ! rid)) r \<and> gt_query (waitlistPosition r) (Some k)"
  let ?saved = "(requests s)[rid := (requests s ! rid)\<lparr>status := Cancelled, waitlistPosition := None\<rparr>]"
  have "\<forall>r\<in>set ?saved. ?P r \<longrightarrow> waitlistPosition r \<noteq> None"
    by (auto simp: gt_query_Some)
  then have "updateMany_inc ?P (- 1) ?saved = (map (\<lambda>r. if ?P r then shift_position (- 1) r else r) ?saved, None)"
    by (rule updateMany_inc_map)
  then show ?thesis
    using rid own wl pos by (simp add: cancelRequest_def findById_Some Let_def)
qed

text \<open>
  Claim C5. When the owner cancels a request that is waitlisted at position \<open>k\<close> (in a
  collection where only waitlisted requests carry a position), the call succeeds, the
  request becomes cancelled without a position, every request for the same title with a
  position above \<open>k\<close> moves up by exactly one, every other request is unchanged (so
  positions up to \<open>k\<close> stay), the Book collection is untouched, and no request becomes
  pending.
\<close>

theorem cancelRequest_waitlisted:
  assumes rid: "rid < length (requests s)"
    and own: "user (requests s ! rid) = uid"
    and wl: "status (requests s ! rid) = Waitlisted"
    and pos: "waitlistPosition (requests s ! rid) = Some k"
    and wf: "\<forall>r\<in>set (requests s). waitlistPosition r \<noteq> None \<longrightarrow> status r = Waitlisted"
  shows "snd (cancelRequest s uid rid) = Inr ()
       \<and> length (requests (fst (cancelRequest s uid rid))) = length (requests s)
       \<and> status (requests (fst (cancelRequest s uid rid)) ! rid) = Cancelled
       \<and> waitlistPosition (requests (fst (cancelRequest s uid rid)) ! rid) = None
       \<and> (\<forall>j p. j < length (requests s) \<and> book (requests s ! j) = book (requests s ! rid)
              \<and> waitlistPosition (requests s ! j) = Some p \<and> k < p
            \<longrightarrow> requests (fst (cancelRequest s uid rid)) ! j
                  = (requests s ! j)\<lparr>waitlistPosition := Some (p - 1)\<rparr>)
       \<and> (\<forall>j. j < length (requests s) \<and> j \<noteq> rid
              \<and> \<not> (book (requests s ! j) = book (requests s ! rid)
                    \<and> (\<exists>p. waitlistPosition (requests s ! j) = Some p \<and> k < p))
            \<longrightarrow> requests (fst (cancelRequest s uid rid)) ! j = requests s ! j)
       \<and> books (fst (cancelRequest s uid rid)) = books s
       \<and> (\<forall>j < length (requests s).
             status (requests (fst (cancelRequest s uid rid)) ! j) = Pending
             \<longrightarrow> status (requests s ! j) = Pending)"
proof -
  let ?rs = "requests s"
  let ?c = "(?rs ! rid)\<lparr>status := Cancelled, waitlistPosition := None\<rparr>"
  let ?P = "\<lambda>r. is_waitlisted_for (book (?rs ! rid)) r \<and> gt_query (waitlistPosition r) (Some k)"
  let ?f = "\<lambda>r. if ?P r then shift_position (- 1) r else r"
  have eq: "cancelRequest s uid rid = (s\<lparr>requests := map ?f (?rs[rid := ?c])\<rparr>, Inr ())"
    by (rule cancelRequest_waitlisted_eq [OF rid own wl pos])
  have st: "\<And>j p. j < length ?rs \<Longrightarrow> waitlistPosition (?rs ! j) = Some p
              \<Longrightarrow> status (?rs ! j) = Waitlisted"
    using wf by (metis nth_mem option.distinct(1))
  have notP: "\<not> ?P ?c" by (simp add: is_waitlisted_for_def)
  have at_rid: "map ?f (?rs[rid := ?c]) ! rid = ?c"
    using rid notP by simp
  have other: "\<And>j. j < length ?rs \<Longrightarrow> j \<noteq> rid \<Longrightarrow> map ?f (?rs[rid := ?c]) ! j = ?f (?rs ! j)"
    by simp
  have rs': "requests (fst (cancelRequest s uid rid)) = map ?f (?rs[rid := ?c])"
    by (simp add: eq)
  have c1: "snd (cancelRequest s uid rid) = Inr ()" by (simp add: eq)
  have c2: "length (requests (fst (cancelRequest s uid rid))) = length ?rs" by (simp add: eq)
  have c3: "status (requests (fst (cancelRequest s uid rid)) ! rid) = Cancelled"
    and c4: "waitlistPosition (requests (fst (cancelRequest s uid rid)) ! rid) = None"
    unfolding rs' at_rid by simp_all
  have c5: "requests (fst (cancelRequest s uid rid)) ! j = (?rs ! j)\<lparr>waitlistPosition := Some (p - 1)\<rparr>"
    if "j < length ?rs" "book (?rs ! j) = book (?rs ! rid)" "waitlistPosition (?rs ! j) = Some p" "k < p"
    for j p
  proof -
    from that pos have "j \<noteq> rid" by auto
    have "?P (?rs ! j)"
      using that st [of j p] by (simp add: is_waitlisted_for_def)
    then have "?f (?rs ! j) = shift_position (- 1) (?rs ! j)" by (rule if_P)
    with other [OF that(1) \<open>j \<noteq> rid\<close>] that(3) show ?thesis
      unfolding rs' by (simp add: shift_position_def)
  qed
  have c6: "requests (fst (cancelRequest s uid rid)) ! j = ?rs ! j"
    if "j < length ?rs" "j \<noteq> rid"
       "\<not> (book (?rs ! j) = book (?rs ! rid) \<and> (\<exists>p. waitlistPosition (?rs ! j) = Some p \<and> k < p))"
    for j
  proof -
    have "\<not> ?P (?rs ! j)"
      using that(3) by (auto simp: is_waitlisted_for_def gt_query_Some)
    then have "?f (?rs ! j) = ?rs ! j" by (rule if_not_P)
    with other [OF that(1,2)] show ?thesis unfolding rs' by simp
  qed
  have c7: "books (fst (cancelRequest s uid rid)) = books s" by (simp add: eq)
  have c8: "status (?rs ! j) = Pending"
    if "j < length ?rs" "status (requests (fst (cancelRequest s uid rid)) ! j) = Pending" for j
  proof (cases "j = rid")
    case True
    with that c3 show ?thesis by simp
  next
    case False
    with that other [of j] have "status (?f (?rs ! j)) = Pending" unfolding rs' by simp
    then show ?thesis by (simp add: shift_position_def split: if_splits)
  qed
  from c1 c2 c3 c4 c5 c6 c7 c8 show ?thesis by blast
qed

section \<open>Examples of creating, issuing and cancelling\<close>

text \<open>The third requester of the scenario joins the queue at position 2.\<close>

theorem createRequest_exhausted_waitlists_witness:
  "books library_one_waiting 0 = Some (book_one\<lparr>availableCopies := 0\<rparr>)
   \<and> availableCopies (book_one\<lparr>availableCopies := 0\<rparr>) = 0
   \<and> (\<exists>r. createRequest library_one_waiting 12 0 Borrow [] =
             (library_one_waiting\<lparr>requests := requests library_one_waiting @ [r]\<rparr>, Inr r)
          \<and> status r = Waitlisted \<and> waitlistPosition r = Some 2)"
proof -
  let ?bk = "book_one\<lparr>availableCopies := 0\<rparr>"
  have h1: "books library_one_waiting 0 = Some ?bk" by (simp add: example_defs)
  have h2: "isActive ?bk" and h3: "bookType ?bk \<noteq> Digital" and h6: "availableCopies ?bk = 0"
    by (simp_all add: example_defs)
  have h4: "\<forall>r\<in>set (requests library_one_waiting).
              \<not> (book r = 0 \<and> user r = 12 \<and> is_active_status (status r))"
    by (simp add: example_defs)
  have h5: "length (trim []) \<le> 300" by (simp add: trim_def)
  have n: "int (length (filter (is_waitlisted_for 0) (requests library_one_waiting))) + 1 = 2"
    by (simp add: example_defs)
  from createRequest_exhausted_waitlists [OF h1 h2 h3 h4 h5 h6] h1 h6 show ?thesis
    unfolding n by blast
qed


theorem createRequest_available_pending_witness:
  "books library0 0 = Some book_one \<and> 0 < availableCopies book_one
   \<and> (\<exists>r. createRequest library0 10 0 Borrow [] =
             (library0\<lparr>requests := requests library0 @ [r]\<rparr>, Inr r)
          \<and> status r = Pending \<and> waitlistPosition r = None)
   \<and> books (fst (createRequest library0 10 0 Borrow [])) = books library0"
proof -
  have h1: "books library0 0 = Some book_one" by (simp add: example_defs)
  have h2: "isActive book_one" and h3: "bookType book_one \<noteq> Digital"
    and h6: "0 < availableCopies book_one"
    by (simp_all add: example_defs)
  have h4: "\<forall>r\<in>set (requests library0).
              \<not> (book r = 0 \<and> user r = 10 \<and> is_active_status (status r))"
    by (simp add: example_defs)
  have h5: "length (trim []) \<le> 300" by (simp add: trim_def)
  from createRequest_available_pending [OF h1 h2 h3 h4 h5 h6] h1 h6 show ?thesis
    by blast
qed

text \<open>
  Claim C9 as stated fails: a digital-only title that is active and carries available
  copies rejects a borrow request at the kind guard, and a note of 301 characters is
  rejected by the schema validator when the request is created.
\<close>

theorem createRequest_digital_counterexample:
  "books library_digital 0 = Some book_digital \<and> isActive book_digital
   \<and> 0 < availableCopies book_digital \<and> requests library_digital = []
   \<and> createRequest library_digital 10 0 Borrow [] =
       (library_digital,
        Inl (HttpError 400 ''This is a digital-only book. Use download request.''))
   \<and> books library0 0 = Some book_one \<and> isActive book_one
   \<and> 0 < availableCopies book_one \<and> requests library0 = []
   \<and> createRequest library0 10 0 Borrow (replicate 301 CHR ''x'') =
       (library0, Inl (ValidationError ''Note cannot exceed 300 characters''))"
proof -
  have "trim (replicate 301 CHR ''x'') = replicate 301 CHR ''x''"
    by (simp add: trim_def is_space_def)
  then have "length (trim (replicate 301 CHR ''x'')) = 301" by simp
  then show ?thesis
    by (simp add: createRequest_def BookRequest_create_def findOne_def book_one_def
          book_digital_def library0_def library_digital_def new_request_def)
qed

theorem issueBook_succeeds_iff_witness:
  "0 < length (requests library_approved)
   \<and> books library_approved (book (requests library_approved ! 0)) = Some book_one
   \<and> availableCopies book_one \<le> totalCopies book_one
   \<and> valid_time (due_time 200 (borrowDurationDays book_one))
   \<and> availableCopies book_one \<le> 2 ^ 53
   \<and> (\<exists>r. snd (issueBook library_approved 200 99 0) = Inr r)
   \<and> books (fst (issueBook library_approved 200 99 0)) 0
       = Some (book_one\<lparr>availableCopies := 0\<rparr>)
   \<and> status (requests (fst (issueBook library_approved 200 99 0)) ! 0) = Issued
   \<and> dueDate (requests (fst (issueBook library_approved 200 99 0)) ! 0) = Some 1209600200
   \<and> status (requests library_download ! 0) = Approved
   \<and> requestType (requests library_download ! 0) = Download
   \<and> issueBook library_download 200 99 0
       = (library_download, Inl (HttpError 400 ''Issue action is only for physical borrow requests''))"
proof -
  have h1: "0 < length (requests library_approved)" by (simp add: example_defs)
  have h2: "books library_approved (book (requests library_approved ! 0)) = Some book_one"
    by (simp add: example_defs)
  have h3: "availableCopies book_one \<le> totalCopies book_one" by (simp add: example_defs)
  have e: "status (requests library_approved ! 0) = Approved"
    "requestType (requests library_approved ! 0) = Borrow" "1 \<le> availableCopies book_one"
    by (simp_all add: example_defs)
  have e0: "book (requests library_approved ! 0) = 0"
    and e1: "availableCopies book_one - 1 = 0"
    and e2: "borrowDurationDays book_one = 14"
    by (simp_all add: example_defs)
  have sm: "availableCopies book_one \<le> 2 ^ 53" by (simp add: example_defs)
  note t = issueBook_succeeds_iff [OF h1 h2 h3, of 200 99]
  have dt0: "due_time 200 (borrowDurationDays book_one) = 1209600200"
    using due_time_exact [of 200 14] by (simp add: e2)
  have vt: "valid_time (due_time 200 (borrowDurationDays book_one))"
    unfolding dt0 by (simp add: valid_time_def)
  from t e vt have ok: "\<exists>r. snd (issueBook library_approved 200 99 0) = Inr r" by blast
  from t ok sm have b1: "books (fst (issueBook library_approved 200 99 0)) 0
       = Some (book_one\<lparr>availableCopies := 0\<rparr>)"
    unfolding e0 e1 by blast
  from t ok have b2: "status (requests (fst (issueBook library_approved 200 99 0)) ! 0) = Issued"
    by blast
  from t ok have "dueDate (requests (fst (issueBook library_approved 200 99 0)) ! 0)
      = Some (due_time 200 (borrowDurationDays book_one))"
    by blast
  then have b3: "dueDate (requests (fst (issueBook library_approved 200 99 0)) ! 0)
      = Some 1209600200"
    unfolding dt0 .
  have d1: "0 < length (requests library_download)" by (simp add: example_defs)
  have d2: "books library_download (book (requests library_download ! 0)) = Some book_digital"
    by (simp add: example_defs)
  have d3: "availableCopies book_digital \<le> totalCopies book_digital" by (simp add: example_defs)
  have d: "status (requests library_download ! 0) = Approved"
    "requestType (requests library_download ! 0) = Download"
    by (simp_all add: example_defs)
  from issueBook_succeeds_iff [OF d1 d2 d3, of 200 99] d
  have dl: "issueBook library_download 200 99 0
       = (library_download, Inl (HttpError 400 ''Issue action is only for physical borrow requests''))"
    by blast
  from h1 h2 h3 vt sm ok b1 b2 b3 d dl show ?thesis by blast
qed

theorem cancelRequest_waitlisted_witness:
  "snd (cancelRequest library_two_waiting 11 1) = Inr ()
   \<and> status (requests (fst (cancelRequest library_two_waiting 11 1)) ! 1) = Cancelled
   \<and> requests (fst (cancelRequest library_two_waiting 11 1)) ! 2
       = new_request 0 12 Borrow [] Waitlisted (Some 1)
   \<and> requests (fst (cancelRequest library_two_waiting 11 1)) ! 0 = req_issued
   \<and> books (fst (cancelRequest library_two_waiting 11 1)) = books library_two_waiting"
proof -
  have h1: "1 < length (requests library_two_waiting)" by (simp add: example_defs)
  have h2: "user (requests library_two_waiting ! 1) = 11"
    and h3: "status (requests library_two_waiting ! 1) = Waitlisted"
    and h4: "waitlistPosition (requests library_two_waiting ! 1) = Some 1"
    by (simp_all add: example_defs)
  have h5: "\<forall>r\<in>set (requests library_two_waiting).
              waitlistPosition r \<noteq> None \<longrightarrow> status r = Waitlisted"
    by (simp add: example_defs)
  note c = cancelRequest_waitlisted [OF h1 h2 h3 h4 h5]
  have a: "2 < length (requests library_two_waiting)
           \<and> book (requests library_two_waiting ! 2) = book (requests library_two_waiting ! 1)
           \<and> waitlistPosition (requests library_two_waiting ! 2) = Some 2 \<and> (1::int) < 2"
    by (simp add: example_defs)
  have b: "0 < length (requests library_two_waiting) \<and> (0::nat) \<noteq> 1
           \<and> \<not> (book (requests library_two_waiting ! 0) = book (requests library_two_waiting ! 1)
                 \<and> (\<exists>p. waitlistPosition (requests library_two_waiting ! 0) = Some p \<and> 1 < p))"
    by (simp add: example_defs)
  from c a have r2: "requests (fst (cancelRequest library_two_waiting 11 1)) ! 2
      = (requests library_two_waiting ! 2)\<lparr>waitlistPosition := Some (2 - 1)\<rparr>"
    by blast
  from c b have r0: "requests (fst (cancelRequest library_two_waiting 11 1)) ! 0
      = requests library_two_waiting ! 0"
    by blast
  have r2': "(requests library_two_waiting ! 2)\<lparr>waitlistPosition := Some (2 - 1)\<rparr>
      = new_request 0 12 Borrow [] Waitlisted (Some 1)"
    and r0': "requests library_two_waiting ! 0 = req_issued"
    by (simp_all add: example_defs)
  from c r2 r0 show ?thesis unfolding r2' r0' by blast
qed

section \<open>Returning a copy\<close>

lemma filter_update_same:
  "i < length xs \<Longrightarrow> \<not> P (xs ! i) \<Longrightarrow> \<not> P y \<Longrightarrow> filter P (xs[i := y]) = filter P xs"
proof (induction xs arbitrary: i)
  case Nil
  then show ?case by simp
next
  case (Cons a xs)
  then show ?case by (cases i) auto
qed

lemma filter_split_at:
  "i < length xs \<Longrightarrow> P (xs ! i) \<Longrightarrow>
   filter P xs = filter P (take i xs) @ xs ! i # filter P (drop (Suc i) xs)"
proof -
  assume a: "i < length xs" "P (xs ! i)"
  have "filter P xs = filter P (take i xs @ xs ! i # drop (Suc i) xs)"
    using a(1) by (simp add: id_take_nth_drop [symmetric])
  then show ?thesis using a(2) by simp
qed

lemma filter_update_removed:
  "i < length xs \<Longrightarrow> \<not> P y \<Longrightarrow>
   filter P (xs[i := y]) = filter P (take i xs) @ filter P (drop (Suc i) xs)"
  by (simp add: upd_conv_take_nth_drop)

lemma contiguous_all_Some:
  "contiguous ps \<Longrightarrow> q \<in> set ps \<Longrightarrow> \<exists>p. q = Some p \<and> 1 \<le> p \<and> p \<le> int (length ps)"
  by (auto simp: contiguous_def)

lemma contiguous_has_one: "contiguous ps \<Longrightarrow> ps \<noteq> [] \<Longrightarrow> Some 1 \<in> set ps"
proof -
  assume a: "contiguous ps" "ps \<noteq> []"
  then have "(1::int) \<in> {1 .. int (length ps)}" by (cases ps) auto
  with a(1) show ?thesis unfolding contiguous_def by blast
qed

lemma contiguous_distinct: "contiguous ps \<Longrightarrow> distinct ps"
proof -
  assume "contiguous ps"
  then have "card (set ps) = card (Some ` {1 .. int (length ps)})"
    by (simp add: contiguous_def)
  also have "\<dots> = card {1 .. int (length ps)}"
    by (rule card_image) simp
  also have "\<dots> = length ps" by simp
  finally show ?thesis by (rule card_distinct)
qed

lemma promoteWaitlist_requests:
  assumes c: "waitlist_contiguous s bid" and bk: "books s bid \<noteq> None"
  shows "promoteWaitlist s now bid =
     (case findOne (\<lambda>r. is_waitlisted_for bid r \<and> waitlistPosition r = Some 1) (requests s) of
        None \<Rightarrow> (s, None)
      | Some i \<Rightarrow>
          (s\<lparr>requests := map (\<lambda>r. if is_waitlisted_for bid r then shift_position (- 1) r else r)
                           ((requests s)[i := promoted now (requests s ! i)])\<rparr>, None))"
proof (cases "findOne (\<lambda>r. is_waitlisted_for bid r \<and> waitlistPosition r = Some 1) (requests s)")
  case None
  then show ?thesis by (simp add: promoteWaitlist_def)
next
  case (Some i)
  let ?saved = "(requests s)[i := promoted now (requests s ! i)]"
  have "\<forall>r\<in>set ?saved. is_waitlisted_for bid r \<longrightarrow> waitlistPosition r \<noteq> None"
  proof (intro ballI impI)
    fix r assume r: "r \<in> set ?saved" "is_waitlisted_for bid r"
    have "r \<noteq> promoted now (requests s ! i)"
      using r(2) by (auto simp: promoted_def is_waitlisted_for_def)
    with r(1) have "r \<in> set (requests s)"
      using set_update_subset_insert by fastforce
    with r(2) have "waitlistPosition r \<in> set (waitlist_positions s bid)"
      by (simp add: waitlist_positions_def)
    with c show "waitlistPosition r \<noteq> None"
      unfolding waitlist_contiguous_def by (auto dest: contiguous_all_Some)
  qed
  then have "updateMany_inc (is_waitlisted_for bid) (- 1) ?saved =
      (map (\<lambda>r. if is_waitlisted_for bid r then shift_position (- 1) r else r) ?saved, None)"
    by (rule updateMany_inc_map)
  then show ?thesis
    using Some bk by (simp add: promoteWaitlist_def promoted_def Let_def)
qed


lemma shift_position_status [simp]: "status (shift_position d r) = status r"
  by (simp add: shift_position_def)

lemma returnBook_eq:
  fixes s :: state and now t :: int and lib rid :: nat and bk :: Book
  assumes rid: "rid < length (requests s)"
    and iss: "status (requests s ! rid) = Issued"
    and bk: "books s (book (requests s ! rid)) = Some bk"
    and lo: "- 1 \<le> availableCopies bk"
    and wl: "waitlist_contiguous s (book (requests s ! rid))"
  defines "bid \<equiv> book (requests s ! rid)"
  defines "req' \<equiv> (requests s ! rid)
             \<lparr>status := Returned, returnedAt := Some now, returnAcceptedBy := Some lib\<rparr>"
  defines "rs1 \<equiv> (requests s)[rid := req']"
  defines "bks \<equiv> (books s)(bid \<mapsto>
             Book_pre_save (bk\<lparr>availableCopies := js_add (availableCopies bk) 1\<rparr>))"
  shows "returnBook s now t lib rid =
     (case findOne (\<lambda>r. is_waitlisted_for bid r \<and> waitlistPosition r = Some 1) rs1 of
        None \<Rightarrow> (s\<lparr>books := bks, requests := rs1\<rparr>, Inr req')
      | Some i \<Rightarrow>
          (s\<lparr>books := bks,
             requests := map (\<lambda>r. if is_waitlisted_for bid r then shift_position (- 1) r else r)
                           (rs1[i := promoted t (rs1 ! i)])\<rparr>, Inr req'))"
proof -
  let ?s1 = "s\<lparr>books := bks, requests := rs1\<rparr>"
  have "filter (is_waitlisted_for bid) rs1 = filter (is_waitlisted_for bid) (requests s)"
    unfolding rs1_def using rid iss
    by (intro filter_update_same) (simp_all add: is_waitlisted_for_def req'_def)
  then have "waitlist_positions ?s1 bid = waitlist_positions s bid"
    by (simp add: waitlist_positions_def)
  with wl have c1: "waitlist_contiguous ?s1 bid"
    by (simp add: waitlist_contiguous_def bid_def)
  have b1: "books ?s1 bid \<noteq> None" by (simp add: bks_def)
  note p = promoteWaitlist_requests [OF c1 b1, of t]
  have "\<not> js_add (availableCopies bk) 1 < 0"
    using lo by (simp add: js_add_neg_iff)
  then have sv: "Book_save (bk\<lparr>availableCopies := js_add (availableCopies bk) 1\<rparr>)
      = Inr (Book_pre_save (bk\<lparr>availableCopies := js_add (availableCopies bk) 1\<rparr>))"
    by (simp add: Book_save_def)
  note p' = p [unfolded bid_def rs1_def bks_def req'_def]
  show ?thesis
    using rid iss bk
    by (simp add: returnBook_def findById_Some sv Let_def bid_def req'_def rs1_def bks_def p'
             split: option.splits)
qed


lemma waitlisted_has_head:
  assumes c: "waitlist_contiguous s bid"
    and q: "q \<in> set (requests s)" "is_waitlisted_for bid q"
  shows "\<exists>m<length (requests s). is_waitlisted_for bid (requests s ! m)
           \<and> waitlistPosition (requests s ! m) = Some 1"
proof -
  from q have "waitlist_positions s bid \<noteq> []"
    by (auto simp: waitlist_positions_def filter_empty_conv)
  with c have "Some 1 \<in> set (waitlist_positions s bid)"
    unfolding waitlist_contiguous_def by (rule contiguous_has_one)
  then obtain r where "r \<in> set (requests s)" "is_waitlisted_for bid r" "waitlistPosition r = Some 1"
    by (auto simp: waitlist_positions_def)
  then show ?thesis by (metis in_set_conv_nth)
qed

text \<open>
  Claim C2, as amended. Returning an issued request whose title exists, has a
  non-negative whole-number available count and a contiguous waitlist succeeds. The
  available count becomes the smaller of the total and the incremented count as
  JavaScript computes it: below \<open>2 ^ 53\<close> that is \<open>min (availableCopies + 1) totalCopies\<close>,
  so the count rises by exactly one when it was below the total and is capped at the
  total by the pre-save hook otherwise. The request becomes returned. If some request for
  the title is waitlisted, exactly one of them, the one at position 1, becomes pending
  with its position cleared, and no request other than the returned and the promoted one
  changes status; if none is waitlisted, no other request changes status.
\<close>

theorem returnBook_issued:
  fixes s s' :: state and now t :: int and lib rid :: nat and bk :: Book
  assumes rid: "rid < length (requests s)"
    and iss: "status (requests s ! rid) = Issued"
    and bk: "books s (book (requests s ! rid)) = Some bk"
    and lo: "0 \<le> availableCopies bk"
    and wl: "waitlist_contiguous s (book (requests s ! rid))"
    and res: "returnBook s now t lib rid = (s', out)"
  shows "(\<exists>r. out = Inr r)
       \<and> books s' (book (requests s ! rid))
           = Some (bk\<lparr>availableCopies := min (js_add (availableCopies bk) 1) (totalCopies bk)\<rparr>)
       \<and> (availableCopies bk < 2 ^ 53 \<longrightarrow>
            books s' (book (requests s ! rid))
              = Some (bk\<lparr>availableCopies := min (availableCopies bk + 1) (totalCopies bk)\<rparr>))
       \<and> (availableCopies bk < totalCopies bk \<and> availableCopies bk < 2 ^ 53 \<longrightarrow>
            books s' (book (requests s ! rid))
              = Some (bk\<lparr>availableCopies := availableCopies bk + 1\<rparr>))
       \<and> length (requests s') = length (requests s)
       \<and> status (requests s' ! rid) = Returned
       \<and> ((\<exists>q\<in>set (requests s). is_waitlisted_for (book (requests s ! rid)) q) \<longrightarrow>
            (\<exists>j<length (requests s).
                is_waitlisted_for (book (requests s ! rid)) (requests s ! j)
              \<and> waitlistPosition (requests s ! j) = Some 1
              \<and> status (requests s' ! j) = Pending
              \<and> waitlistPosition (requests s' ! j) = None
              \<and> (\<forall>m<length (requests s). m \<noteq> rid \<and> m \<noteq> j \<longrightarrow>
                    status (requests s' ! m) = status (requests s ! m))))
       \<and> ((\<forall>q\<in>set (requests s). \<not> is_waitlisted_for (book (requests s ! rid)) q) \<longrightarrow>
            (\<forall>m<length (requests s). m \<noteq> rid \<longrightarrow>
                status (requests s' ! m) = status (requests s ! m)))"
proof -
  let ?rs = "requests s"
  let ?bid = "book (?rs ! rid)"
  let ?req' = "(?rs ! rid)\<lparr>status := Returned, returnedAt := Some now, returnAcceptedBy := Some lib\<rparr>"
  let ?rs1 = "?rs[rid := ?req']"
  let ?bk' = "Book_pre_save (bk\<lparr>availableCopies := js_add (availableCopies bk) 1\<rparr>)"
  let ?bks = "(books s)(?bid \<mapsto> ?bk')"
  let ?P = "\<lambda>r. is_waitlisted_for ?bid r \<and> waitlistPosition r = Some 1"
  let ?g = "\<lambda>r. if is_waitlisted_for ?bid r then shift_position (- 1) r else r"
  from lo have lo': "- 1 \<le> availableCopies bk" by simp
  note eq = returnBook_eq [OF rid iss bk lo' wl, where now = now and lib = lib and t = t]
  have bk'_eq: "?bk' = bk\<lparr>availableCopies := min (js_add (availableCopies bk) 1) (totalCopies bk)\<rparr>"
    by (simp add: Book_pre_save_def min_def)
  have small: "js_add (availableCopies bk) 1 = availableCopies bk + 1"
    if "availableCopies bk < 2 ^ 53"
    using that lo by (intro js_add_exact) simp
  have bk'_sm: "availableCopies bk < 2 ^ 53 \<longrightarrow>
      ?bk' = bk\<lparr>availableCopies := min (availableCopies bk + 1) (totalCopies bk)\<rparr>"
  proof
    assume "availableCopies bk < 2 ^ 53"
    then have "js_add (availableCopies bk) 1 = availableCopies bk + 1" by (rule small)
    then show "?bk' = bk\<lparr>availableCopies := min (availableCopies bk + 1) (totalCopies bk)\<rparr>"
      by (simp add: Book_pre_save_def min_def)
  qed
  have bk'_lt: "availableCopies bk < totalCopies bk \<and> availableCopies bk < 2 ^ 53 \<longrightarrow>
      ?bk' = bk\<lparr>availableCopies := availableCopies bk + 1\<rparr>"
  proof
    assume a: "availableCopies bk < totalCopies bk \<and> availableCopies bk < 2 ^ 53"
    then have "js_add (availableCopies bk) 1 = availableCopies bk + 1" using small by blast
    then show "?bk' = bk\<lparr>availableCopies := availableCopies bk + 1\<rparr>"
      using a by (simp add: Book_pre_save_def)
  qed
  have rs1_rid: "?rs1 ! rid = ?req'" using rid by simp
  have rs1_other: "\<And>m. m \<noteq> rid \<Longrightarrow> ?rs1 ! m = ?rs ! m" by simp
  have not_wl_rid: "\<not> is_waitlisted_for ?bid (?rs ! rid)"
    using iss by (simp add: is_waitlisted_for_def)
  have gstatus: "\<And>r. status (?g r) = status r" by simp
  show ?thesis
  proof (cases "findOne ?P ?rs1")
    case None
    with eq res have s': "s' = s\<lparr>books := ?bks, requests := ?rs1\<rparr>" and out: "out = Inr ?req'"
      by simp_all
    have none: "\<forall>q\<in>set ?rs. \<not> is_waitlisted_for ?bid q"
    proof (intro ballI notI)
      fix q assume "q \<in> set ?rs" "is_waitlisted_for ?bid q"
      from waitlisted_has_head [OF wl this] obtain m where
        m: "m < length ?rs" "is_waitlisted_for ?bid (?rs ! m)" "waitlistPosition (?rs ! m) = Some 1"
        by blast
      with not_wl_rid have "m \<noteq> rid" by auto
      have "m < length ?rs1" using m(1) by simp
      then have "?rs1 ! m \<in> set ?rs1" by (rule nth_mem)
      moreover have "?P (?rs1 ! m)"
        using m \<open>m \<noteq> rid\<close> by (simp add: rs1_other)
      moreover from None have "\<forall>r\<in>set ?rs1. \<not> ?P r"
        by (simp only: findOne_None_iff)
      ultimately show False by blast
    qed
    have a1: "\<exists>r. out = Inr r" using out by simp
    have a2: "books s' ?bid
        = Some (bk\<lparr>availableCopies := min (js_add (availableCopies bk) 1) (totalCopies bk)\<rparr>)"
      unfolding s' using bk'_eq by simp
    have a2': "availableCopies bk < 2 ^ 53 \<longrightarrow>
        books s' ?bid = Some (bk\<lparr>availableCopies := min (availableCopies bk + 1) (totalCopies bk)\<rparr>)"
      unfolding s' using bk'_sm by simp
    have a3: "availableCopies bk < totalCopies bk \<and> availableCopies bk < 2 ^ 53 \<longrightarrow>
        books s' ?bid = Some (bk\<lparr>availableCopies := availableCopies bk + 1\<rparr>)"
      unfolding s' using bk'_lt by simp
    have a4: "length (requests s') = length ?rs" unfolding s' by simp
    have a5: "status (requests s' ! rid) = Returned" unfolding s' using rid by simp
    have a7: "\<forall>m<length ?rs. m \<noteq> rid \<longrightarrow> status (requests s' ! m) = status (?rs ! m)"
      unfolding s' by simp
    from a1 a2 a2' a3 a4 a5 a7 none show ?thesis by blast
  next
    case (Some j)
    with eq res have s': "s' = s\<lparr>books := ?bks, requests := map ?g (?rs1[j := promoted t (?rs1 ! j)])\<rparr>"
      and out: "out = Inr ?req'"
      by simp_all
    from findOne_SomeD [OF Some] have j: "j < length ?rs1" "?P (?rs1 ! j)" by blast+
    have jr: "j \<noteq> rid"
      using j(2) rs1_rid by (auto simp: is_waitlisted_for_def)
    then have rs1_j: "?rs1 ! j = ?rs ! j" by simp
    have jlen: "j < length ?rs" using j(1) by simp
    have rs': "requests s' = map ?g (?rs1[j := promoted t (?rs1 ! j)])" unfolding s' by simp
    have nth': "\<And>m. m < length ?rs \<Longrightarrow> requests s' ! m = ?g (?rs1[j := promoted t (?rs1 ! j)] ! m)"
      unfolding rs' by simp
    have a1: "\<exists>r. out = Inr r" using out by simp
    have a2: "books s' ?bid
        = Some (bk\<lparr>availableCopies := min (js_add (availableCopies bk) 1) (totalCopies bk)\<rparr>)"
      unfolding s' using bk'_eq by simp
    have a2': "availableCopies bk < 2 ^ 53 \<longrightarrow>
        books s' ?bid = Some (bk\<lparr>availableCopies := min (availableCopies bk + 1) (totalCopies bk)\<rparr>)"
      unfolding s' using bk'_sm by simp
    have a3: "availableCopies bk < totalCopies bk \<and> availableCopies bk < 2 ^ 53 \<longrightarrow>
        books s' ?bid = Some (bk\<lparr>availableCopies := availableCopies bk + 1\<rparr>)"
      unfolding s' using bk'_lt by simp
    have a4: "length (requests s') = length ?rs" unfolding rs' by simp
    have "requests s' ! rid = ?g ?req'"
      using nth' [OF rid] jr rid by simp
    then have a5: "status (requests s' ! rid) = Returned" by simp
    have atj: "requests s' ! j = promoted t (?rs ! j)"
      using nth' [OF jlen] jlen rs1_j by (simp add: promoted_def is_waitlisted_for_def)
    have a6: "is_waitlisted_for ?bid (?rs ! j)" "waitlistPosition (?rs ! j) = Some 1"
      "status (requests s' ! j) = Pending" "waitlistPosition (requests s' ! j) = None"
      using j(2) rs1_j atj by (simp_all add: promoted_def)
    have a7: "\<forall>m<length ?rs. m \<noteq> rid \<and> m \<noteq> j \<longrightarrow> status (requests s' ! m) = status (?rs ! m)"
    proof (intro allI impI)
      fix m assume m: "m < length ?rs" "m \<noteq> rid \<and> m \<noteq> j"
      then have "?rs1[j := promoted t (?rs1 ! j)] ! m = ?rs ! m" by simp
      with nth' [OF m(1)] show "status (requests s' ! m) = status (?rs ! m)" by simp
    qed
    have some: "\<exists>q\<in>set ?rs. is_waitlisted_for ?bid q"
      using a6(1) jlen nth_mem by blast
    from a1 a2 a2' a3 a4 a5 a6 a7 jlen some show ?thesis by blast
  qed
qed


text \<open>
  Claim C3, as amended. When the increment of a return would take the available count
  above the total, the operation does not report an error and does not abort: the
  pre-save hook sets the count to the total, the request is saved as returned and
  returned to the caller.
\<close>

theorem returnBook_caps_silently:
  fixes s s' :: state and now t :: int and lib rid :: nat and bk :: Book
  assumes rid: "rid < length (requests s)"
    and iss: "status (requests s ! rid) = Issued"
    and bk: "books s (book (requests s ! rid)) = Some bk"
    and lo: "0 \<le> availableCopies bk"
    and over: "totalCopies bk < availableCopies bk + 1"
    and wl: "waitlist_contiguous s (book (requests s ! rid))"
    and res: "returnBook s now t lib rid = (s', out)"
  shows "out = Inr ((requests s ! rid)
               \<lparr>status := Returned, returnedAt := Some now, returnAcceptedBy := Some lib\<rparr>)
       \<and> books s' (book (requests s ! rid)) = Some (bk\<lparr>availableCopies := totalCopies bk\<rparr>)
       \<and> status (requests s' ! rid) = Returned"
proof -
  let ?rs = "requests s"
  let ?bid = "book (?rs ! rid)"
  let ?req' = "(?rs ! rid)\<lparr>status := Returned, returnedAt := Some now, returnAcceptedBy := Some lib\<rparr>"
  let ?rs1 = "?rs[rid := ?req']"
  let ?P = "\<lambda>r. is_waitlisted_for ?bid r \<and> waitlistPosition r = Some 1"
  let ?g = "\<lambda>r. if is_waitlisted_for ?bid r then shift_position (- 1) r else r"
  from lo have lo': "- 1 \<le> availableCopies bk" by simp
  note eq = returnBook_eq [OF rid iss bk lo' wl, where now = now and lib = lib and t = t]
  have "availableCopies bk \<le> js_add (availableCopies bk) 1"
    using lo by (rule js_add_one_ge)
  with over have "totalCopies bk \<le> js_add (availableCopies bk) 1" by simp
  then have cap: "Book_pre_save (bk\<lparr>availableCopies := js_add (availableCopies bk) 1\<rparr>)
      = bk\<lparr>availableCopies := totalCopies bk\<rparr>"
    by (cases "totalCopies bk = js_add (availableCopies bk) 1") (simp_all add: Book_pre_save_def)
  have rs1_rid: "?rs1 ! rid = ?req'" using rid by simp
  show ?thesis
  proof (cases "findOne ?P ?rs1")
    case None
    with eq res show ?thesis using rid cap by auto
  next
    case (Some j)
    with eq res have s': "s' = s\<lparr>books := (books s)(?bid \<mapsto> bk\<lparr>availableCopies := totalCopies bk\<rparr>),
        requests := map ?g (?rs1[j := promoted t (?rs1 ! j)])\<rparr>"
      and out: "out = Inr ?req'"
      by (simp_all add: cap)
    from findOne_SomeD [OF Some] have j: "j < length ?rs1" "?P (?rs1 ! j)" by blast+
    have jr: "j \<noteq> rid"
      using j(2) rs1_rid by (auto simp: is_waitlisted_for_def)
    have "requests s' ! rid = ?g ?req'"
      unfolding s' using jr rid by simp
    then have "status (requests s' ! rid) = Returned" by simp
    moreover have "books s' ?bid = Some (bk\<lparr>availableCopies := totalCopies bk\<rparr>)"
      unfolding s' by simp
    ultimately show ?thesis using out by blast
  qed
qed

lemmas eval_defs =
  returnBook_def promoteWaitlist_def findOne_def findById_def Book_save_def Book_pre_save_def
  issueBook_def approveRequest_def createRequest_def cancelRequest_def updateBook_def
  BookRequest_create_def countDocuments_def assigned_def modified_below_def promoted_def
  rejectRequest_def Let_def due_time_def valid_time_def js_add_exact js_mul_exact

section \<open>Overlapping calls that meet one state\<close>

text \<open>
  When every \<^verbatim>\<open>await\<close> of a call meets the same state, the call is the operation
  run on its own.
\<close>

lemma createRequest_async_same:
  "createRequest_async s s s s uid bid rt nt = createRequest s uid bid rt nt"
  by (simp add: createRequest_async_def createRequest_def)

lemma returnBook_async_same:
  "returnBook_async s s now t lib rid = returnBook s now t lib rid"
proof (cases "findById rid (requests s)")
  case None
  then show ?thesis by (simp add: returnBook_async_def returnBook_def)
next
  case (Some request)
  then have rq: "requests s ! rid = request" "rid < length (requests s)"
    by (auto simp: findById_def split: if_splits)
  then have upd: "\<And>f. (requests s)[rid := f request] = (requests s)[rid := f (requests s ! rid)]"
    by simp
  show ?thesis
  proof (cases "books s (book request)")
    case None
    with Some show ?thesis by (simp add: returnBook_async_def returnBook_def)
  next
    case bk: (Some bk)
    let ?inc = "js_add (availableCopies bk) 1"
    show ?thesis
    proof (cases "?inc < 0")
      case True
      with Some bk show ?thesis
        by (simp add: returnBook_async_def returnBook_def Book_save_def Let_def)
    next
      case False
      have w1: "bk\<lparr>availableCopies := availableCopies (Book_pre_save (bk\<lparr>availableCopies := ?inc\<rparr>))\<rparr>
          = Book_pre_save (bk\<lparr>availableCopies := ?inc\<rparr>)"
        by (simp add: Book_pre_save_def)
      show ?thesis
      proof (cases "?inc \<noteq> availableCopies bk \<or> totalCopies bk < ?inc")
        case True
        with False Some bk show ?thesis
          by (simp add: returnBook_async_def returnBook_def Book_save_def Let_def w1)
      next
        case same: False
        then have w2: "Book_pre_save (bk\<lparr>availableCopies := ?inc\<rparr>) = bk"
          by (simp add: Book_pre_save_def)
        from same have w3: "Book_pre_save bk = bk"
          by (simp add: Book_pre_save_def)
        from same False Some bk rq show ?thesis
          by (simp add: returnBook_async_def returnBook_def Book_save_def Let_def w2 w3)
      qed
    qed
  qed
qed

section \<open>The example states are reached by runs\<close>

lemma library_issued_reached:
  "run library0 [CreateRequest 10 0 Borrow [], ApproveRequest 100 99 0, IssueBook 200 99 0]
     = library_issued"
  by (simp add: run_def eval_defs example_defs)

lemma library_capped_reached:
  "step library_issued (UpdateBook 0 (no_update\<lparr>u_availableCopies := Some 1\<rparr>)) = library_capped"
  by (simp add: eval_defs example_defs)

lemma library_none_reached:
  "run library_issued [CreateRequest 11 0 Borrow [], UpdateBook 0 (no_update\<lparr>u_totalCopies := Some 0\<rparr>)]
     = library_none"
  by (simp add: run_def eval_defs example_defs)

lemma library_long_loan_reached:
  "run library0 [CreateRequest 10 0 Borrow [], ApproveRequest 100 99 0,
                 UpdateBook 0 (no_update\<lparr>u_borrowDurationDays := Some 100000000\<rparr>)]
     = library_long_loan"
  by (simp add: run_def eval_defs example_defs)

lemma library_many_reached:
  "run library0 [UpdateBook 0 (no_update\<lparr>u_totalCopies := Some 10000000000000000,
                                          u_availableCopies := Some 10000000000000000\<rparr>),
                 CreateRequest 10 0 Borrow [], ApproveRequest 100 99 0]
     = library_many"
  by (simp add: run_def eval_defs example_defs)

lemma library_saturated_reached:
  "step library_issued (UpdateBook 0 (no_update\<lparr>u_totalCopies := Some 18014398509481984,
                                                  u_availableCopies := Some 9007199254740992\<rparr>))
     = library_saturated"
  by (simp add: eval_defs example_defs)

lemma library_withdrawn_reached:
  "step library_issued (UpdateBook 0 (no_update\<lparr>u_totalCopies := Some 0\<rparr>)) = library_withdrawn"
  by (simp add: eval_defs example_defs)

text \<open>
  A return at \<open>2 ^ 53\<close> available copies of \<open>2 ^ 54\<close> (a state that a catalogue
  update produces, see \<open>library_saturated_reached\<close>) succeeds and leaves the count as it
  was: the incremented count is rounded back to \<open>2 ^ 53\<close>.
\<close>

lemma returnBook_saturated:
  "books library_saturated 0
     = Some (book_one\<lparr>totalCopies := 18014398509481984, availableCopies := 9007199254740992\<rparr>)
   \<and> books (fst (returnBook library_saturated 300 301 99 0)) 0
     = Some (book_one\<lparr>totalCopies := 18014398509481984, availableCopies := 9007199254740992\<rparr>)
   \<and> snd (returnBook library_saturated 300 301 99 0)
     = Inr (req_issued\<lparr>status := Returned, returnedAt := Some 300, returnAcceptedBy := Some 99\<rparr>)"
  by (simp add: returnBook_def promoteWaitlist_def findOne_def findById_def Book_save_def
        Book_pre_save_def Let_def saturated_increment example_defs)

text \<open>
  Claim C4 as stated fails. With an approved borrow request, one available copy and a
  borrow duration of 100 000 000 days (set by a catalogue update, see
  \<open>library_long_loan_reached\<close>) the due date is not a valid \<^verbatim>\<open>Date\<close>: the call
  throws when it saves the request, after the copy was taken, and the request stays
  approved. With \<open>10 ^ 16\<close> copies (see \<open>library_many_reached\<close>) the call succeeds
  and the available count is not decremented.
\<close>

theorem issueBook_invalid_date_counterexample:
  "status (requests library_long_loan ! 0) = Approved
   \<and> requestType (requests library_long_loan ! 0) = Borrow
   \<and> books library_long_loan 0 = Some (book_one\<lparr>borrowDurationDays := 100000000\<rparr>)
   \<and> availableCopies (book_one\<lparr>borrowDurationDays := 100000000\<rparr>) = 1
   \<and> issueBook library_long_loan 200 99 0
       = (\<lparr> books = [0 \<mapsto> book_one\<lparr>borrowDurationDays := 100000000, availableCopies := 0\<rparr>],
            requests = [req_approved] \<rparr>,
          Inl (ValidationError ''Cast to date failed for path dueDate''))
   \<and> status (requests library_many ! 0) = Approved
   \<and> requestType (requests library_many ! 0) = Borrow
   \<and> books library_many 0
       = Some (book_one\<lparr>totalCopies := 10000000000000000, availableCopies := 10000000000000000\<rparr>)
   \<and> snd (issueBook library_many 200 99 0) = Inr req_issued
   \<and> books (fst (issueBook library_many 200 99 0)) 0
       = Some (book_one\<lparr>totalCopies := 10000000000000000, availableCopies := 10000000000000000\<rparr>)"
  by (simp add: issueBook_def findById_def Book_save_def Book_pre_save_def Let_def due_time_def
        valid_time_def js_mul_exact js_add_exact lost_decrement example_defs)

text \<open>
  Claim C2 as stated fails where the available count already equals the total (a state
  that a catalogue update produces while the copy is out, see
  \<open>library_capped_reached\<close>): the return leaves the count at 1.
\<close>

theorem returnBook_capped_counterexample:
  "status (requests library_capped ! 0) = Issued
   \<and> books library_capped 0 = Some book_one
   \<and> books (fst (returnBook library_capped 300 301 99 0)) 0 = Some book_one
   \<and> availableCopies book_one \<noteq> availableCopies book_one + 1"
  by (simp add: eval_defs example_defs)

text \<open>
  Claim C3 as stated fails: with no copy in the total and the increment overshooting it,
  the return completes, writes the returned request, promotes the waiting requester and
  reports no error.
\<close>

theorem returnBook_no_abort_counterexample:
  "status (requests library_none ! 0) = Issued
   \<and> books library_none 0 = Some (book_one\<lparr>totalCopies := 0, availableCopies := 0\<rparr>)
   \<and> returnBook library_none 300 301 99 0 =
       (\<lparr> books = [0 \<mapsto> book_one\<lparr>totalCopies := 0, availableCopies := 0\<rparr>],
          requests = [req_issued\<lparr>status := Returned, returnedAt := Some 300,
                                 returnAcceptedBy := Some 99\<rparr>,
                      (new_request 0 11 Borrow [] Pending None)\<lparr>waitlistNotifiedAt := Some 301\<rparr>] \<rparr>,
        Inr (req_issued\<lparr>status := Returned, returnedAt := Some 300,
                         returnAcceptedBy := Some 99\<rparr>))"
  by (simp add: eval_defs example_defs)


lemma contiguous_two: "contiguous [Some 1, Some 2]"
proof -
  have "{1 .. 2 :: int} = {1, 2}" by auto
  then show ?thesis by (simp add: contiguous_def)
qed

lemma contiguous_one: "contiguous [Some 1]"
proof -
  have "{1 .. 1 :: int} = {1}" by auto
  then show ?thesis by (simp add: contiguous_def)
qed

lemma contiguous_Nil: "contiguous []"
  by (simp add: contiguous_def)

text \<open>
  In the scenario, the return frees the copy and promotes requester 11; with nobody
  waiting it only frees the copy.
\<close>

theorem returnBook_issued_witness:
  "status (requests library_two_waiting ! 0) = Issued
   \<and> books library_two_waiting 0 = Some (book_one\<lparr>availableCopies := 0\<rparr>)
   \<and> waitlist_contiguous library_two_waiting 0
   \<and> (\<exists>r. snd (returnBook library_two_waiting 300 301 99 0) = Inr r)
   \<and> books (fst (returnBook library_two_waiting 300 301 99 0)) 0 = Some book_one
   \<and> status (requests (fst (returnBook library_two_waiting 300 301 99 0)) ! 0) = Returned
   \<and> status (requests (fst (returnBook library_two_waiting 300 301 99 0)) ! 1) = Pending
   \<and> waitlistPosition (requests (fst (returnBook library_two_waiting 300 301 99 0)) ! 1) = None
   \<and> status (requests (fst (returnBook library_two_waiting 300 301 99 0)) ! 2) = Waitlisted
   \<and> books (fst (returnBook library_issued 300 301 99 0)) 0 = Some book_one
   \<and> status (requests (fst (returnBook library_issued 300 301 99 0)) ! 0) = Returned"
proof -
  have i1: "0 < length (requests library_issued)"
    and i2: "status (requests library_issued ! 0) = Issued"
    and i3: "books library_issued (book (requests library_issued ! 0))
               = Some (book_one\<lparr>availableCopies := 0\<rparr>)"
    and i4: "0 \<le> availableCopies (book_one\<lparr>availableCopies := 0\<rparr>)"
    and ib: "book (requests library_issued ! 0) = 0"
    by (simp_all add: example_defs)
  have "waitlist_positions library_issued 0 = []"
    by (simp add: waitlist_positions_def example_defs)
  then have i5: "waitlist_contiguous library_issued (book (requests library_issued ! 0))"
    by (simp add: ib waitlist_contiguous_def contiguous_Nil)
  have ires: "returnBook library_issued 300 301 99 0
      = (fst (returnBook library_issued 300 301 99 0), snd (returnBook library_issued 300 301 99 0))"
    by simp
  have im: "book_one\<lparr>availableCopies := 0\<rparr>\<lparr>availableCopies :=
      min (js_add (availableCopies (book_one\<lparr>availableCopies := 0\<rparr>)) 1)
          (totalCopies (book_one\<lparr>availableCopies := 0\<rparr>))\<rparr> = book_one"
    by (simp add: example_defs js_add_exact)
  from returnBook_issued [OF i1 i2 i3 i4 i5 ires, unfolded ib im]
  have second: "books (fst (returnBook library_issued 300 301 99 0)) 0 = Some book_one
     \<and> status (requests (fst (returnBook library_issued 300 301 99 0)) ! 0) = Returned"
    by blast
  let ?s = library_two_waiting
  let ?bk = "book_one\<lparr>availableCopies := 0\<rparr>"
  have b0: "book (requests ?s ! 0) = 0" and len: "length (requests ?s) = 3"
    by (simp_all add: example_defs)
  have h1: "0 < length (requests ?s)" by (simp add: len)
  have h2: "status (requests ?s ! 0) = Issued" by (simp add: example_defs)
  have h3: "books ?s (book (requests ?s ! 0)) = Some ?bk" by (simp add: example_defs)
  have h4: "0 \<le> availableCopies ?bk" by (simp add: example_defs)
  have "waitlist_positions ?s 0 = [Some 1, Some 2]"
    by (simp add: waitlist_positions_def example_defs)
  then have c: "waitlist_contiguous ?s 0"
    by (simp add: waitlist_contiguous_def contiguous_two)
  then have h5: "waitlist_contiguous ?s (book (requests ?s ! 0))" by (simp only: b0)
  have res: "returnBook ?s 300 301 99 0
      = (fst (returnBook ?s 300 301 99 0), snd (returnBook ?s 300 301 99 0))"
    by simp
  have w: "\<exists>q\<in>set (requests ?s). is_waitlisted_for 0 q" by (simp add: example_defs)
  have m: "?bk\<lparr>availableCopies := min (js_add (availableCopies ?bk) 1) (totalCopies ?bk)\<rparr>
      = book_one"
    by (simp add: example_defs js_add_exact)
  have p: "waitlistPosition (requests ?s ! 0) = None" "waitlistPosition (requests ?s ! 1) = Some 1"
    "waitlistPosition (requests ?s ! 2) = Some 2" "status (requests ?s ! 2) = Waitlisted"
    by (simp_all add: example_defs)
  note t = returnBook_issued [OF h1 h2 h3 h4 h5 res, unfolded b0 len m]
  from t w obtain j where j: "j < 3" "waitlistPosition (requests ?s ! j) = Some 1"
    "status (requests (fst (returnBook ?s 300 301 99 0)) ! j) = Pending"
    "waitlistPosition (requests (fst (returnBook ?s 300 301 99 0)) ! j) = None"
    "\<forall>m<3. m \<noteq> 0 \<and> m \<noteq> j \<longrightarrow>
        status (requests (fst (returnBook ?s 300 301 99 0)) ! m) = status (requests ?s ! m)"
    by blast
  from j(1) have "j = 0 \<or> j = 1 \<or> j = 2" by arith
  with j(2) p have j1: "j = 1" by auto
  from j(5) j1 p(4) have "status (requests (fst (returnBook ?s 300 301 99 0)) ! 2) = Waitlisted"
    by simp
  with t j(3,4) h2 h3 c second show ?thesis unfolding j1 b0 by blast
qed

theorem returnBook_caps_silently_witness:
  "status (requests library_capped ! 0) = Issued
   \<and> books library_capped 0 = Some book_one
   \<and> totalCopies book_one < availableCopies book_one + 1
   \<and> snd (returnBook library_capped 300 301 99 0)
       = Inr (req_issued\<lparr>status := Returned, returnedAt := Some 300, returnAcceptedBy := Some 99\<rparr>)
   \<and> books (fst (returnBook library_capped 300 301 99 0)) 0 = Some book_one
   \<and> status (requests (fst (returnBook library_capped 300 301 99 0)) ! 0) = Returned"
proof -
  let ?s = library_capped
  have b0: "book (requests ?s ! 0) = 0" and r0: "requests ?s ! 0 = req_issued"
    by (simp_all add: example_defs)
  have h1: "0 < length (requests ?s)" by (simp add: example_defs)
  have h2: "status (requests ?s ! 0) = Issued" by (simp add: example_defs)
  have h3: "books ?s (book (requests ?s ! 0)) = Some book_one" by (simp add: example_defs)
  have h4: "0 \<le> availableCopies book_one" by (simp add: example_defs)
  have h5: "totalCopies book_one < availableCopies book_one + 1" by (simp add: example_defs)
  have "waitlist_positions ?s 0 = []"
    by (simp add: waitlist_positions_def example_defs)
  then have "waitlist_contiguous ?s 0"
    by (simp add: waitlist_contiguous_def contiguous_Nil)
  then have h6: "waitlist_contiguous ?s (book (requests ?s ! 0))" by (simp only: b0)
  have res: "returnBook ?s 300 301 99 0
      = (fst (returnBook ?s 300 301 99 0), snd (returnBook ?s 300 301 99 0))"
    by simp
  have m: "book_one\<lparr>availableCopies := totalCopies book_one\<rparr> = book_one"
    by (simp add: example_defs)
  have b0': "book req_issued = 0" by (simp add: example_defs)
  note t = returnBook_caps_silently [OF h1 h2 h3 h4 h5 h6 res, unfolded r0 b0' m]
  from t h2 h3 h5 show ?thesis unfolding b0 by blast
qed

section \<open>Contiguous position lists\<close>

lemma positions_map:
  assumes "\<And>r. W (g r) = W r" and "\<And>r. W r \<Longrightarrow> waitlistPosition (g r) = f (waitlistPosition r)"
  shows "map waitlistPosition (filter W (map g xs)) = map f (map waitlistPosition (filter W xs))"
  using assms by (induction xs) auto

lemma shifted_range:
  fixes k n :: int
  assumes "1 \<le> k" "k \<le> n + 1"
  shows "(\<lambda>p. if k < p then p - 1 else p) ` ({1 .. n + 1} - {k}) = {1 .. n}"
proof (intro equalityI subsetI)
  fix q assume "q \<in> (\<lambda>p. if k < p then p - 1 else p) ` ({1 .. n + 1} - {k})"
  then obtain p where "p \<in> {1 .. n + 1} - {k}" and "q = (if k < p then p - 1 else p)"
    by (rule imageE)
  with assms show "q \<in> {1 .. n}" by (auto split: if_splits)
next
  fix q assume q: "q \<in> {1 .. n}"
  show "q \<in> (\<lambda>p. if k < p then p - 1 else p) ` ({1 .. n + 1} - {k})"
  proof (cases "q < k")
    case True
    with q have "q \<in> {1 .. n + 1} - {k}" "q = (if k < q then q - 1 else q)" by auto
    then show ?thesis by (rule_tac x = q in image_eqI)
  next
    case False
    with q have "q + 1 \<in> {1 .. n + 1} - {k}" "q = (if k < q + 1 then (q + 1) - 1 else q + 1)" by auto
    then show ?thesis by (rule_tac x = "q + 1" in image_eqI)
  qed
qed

lemma renumber_Some: "renumber k (Some p) = Some (if k < p then p - 1 else p)"
  by (simp add: renumber_def)

lemma contiguous_remove:
  assumes c: "contiguous (A @ Some k # B)"
  shows "contiguous (map (renumber k) (A @ B))"
proof -
  let ?n = "int (length A + length B)"
  from c have set_eq: "set (A @ Some k # B) = Some ` {1 .. ?n + 1}"
    by (simp add: contiguous_def add.commute add.left_commute)
  from contiguous_distinct [OF c] have nk: "Some k \<notin> set (A @ B)" by auto
  from set_eq have "Some k \<in> Some ` {1 .. ?n + 1}" by auto
  then have k: "1 \<le> k" "k \<le> ?n + 1" by auto
  have "set (A @ B) = set (A @ Some k # B) - {Some k}" using nk by auto
  also have "\<dots> = Some ` ({1 .. ?n + 1} - {k})" unfolding set_eq by auto
  finally have AB: "set (A @ B) = Some ` ({1 .. ?n + 1} - {k})" .
  have "set (map (renumber k) (A @ B)) = renumber k ` set (A @ B)"
    by (rule set_map)
  also have "\<dots> = renumber k ` Some ` ({1 .. ?n + 1} - {k})"
    by (simp only: AB)
  also have "\<dots> = Some ` (\<lambda>p. if k < p then p - 1 else p) ` ({1 .. ?n + 1} - {k})"
    by (simp only: image_image renumber_Some)
  also have "\<dots> = Some ` {1 .. ?n}"
    by (simp only: shifted_range [OF k])
  finally show ?thesis by (simp add: contiguous_def)
qed

lemma contiguous_remove_head:
  assumes c: "contiguous (A @ Some 1 # B)"
  shows "contiguous (map (map_option (\<lambda>p. p + (- 1))) (A @ B))"
proof -
  have eq: "map (map_option (\<lambda>p. p + (- 1))) (A @ B) = map (renumber 1) (A @ B)"
  proof (rule map_cong [OF refl])
    fix q assume q: "q \<in> set (A @ B)"
    then have "q \<in> set (A @ Some 1 # B)" by auto
    from contiguous_all_Some [OF c this] obtain p where p: "q = Some p" "1 \<le> p" by blast
    from contiguous_distinct [OF c] q have "q \<noteq> Some 1" by auto
    with p have "1 < p" by auto
    with p show "map_option (\<lambda>p. p + (- 1)) q = renumber 1 q" by (simp add: renumber_def)
  qed
  show ?thesis unfolding eq by (rule contiguous_remove [OF c])
qed

lemma contiguous_append:
  assumes c: "contiguous ps"
  shows "contiguous (ps @ [Some (int (length ps) + 1)])"
proof -
  have "{1 .. int (length ps) + 1} = insert (int (length ps) + 1) {1 .. int (length ps)}"
    by auto
  with c show ?thesis by (simp add: contiguous_def add.commute)
qed

section \<open>How the operations change requests\<close>

lemma evolves_refl [simp]: "evolves r r"
  by (simp add: evolves_def)

lemma evolves_trans: "evolves a b \<Longrightarrow> evolves b c \<Longrightarrow> evolves a c"
  by (auto simp: evolves_def)

lemma all_evolve_refl: "list_all2 evolves rs rs"
  by (simp add: list_all2_refl)

lemma all_evolve_trans:
  "list_all2 evolves xs ys \<Longrightarrow> list_all2 evolves ys zs \<Longrightarrow> list_all2 evolves xs zs"
  by (rule list_all2_trans [of evolves evolves evolves]) (auto intro: evolves_trans)

lemma all_evolve_update:
  assumes "i < length rs" "evolves (rs ! i) c"
  shows "list_all2 evolves rs (rs[i := c])"
proof -
  have "list_all2 evolves (rs[i := rs ! i]) (rs[i := c])"
    using assms(2) by (intro list_all2_update_cong all_evolve_refl)
  then show ?thesis by simp
qed

lemma evolves_inc: "evolves r (r\<lparr>waitlistPosition := q\<rparr>)"
  by (simp add: evolves_def)

lemma all_evolve_inc: "list_all2 evolves rs (fst (updateMany_inc P d rs))"
  by (induction rs) (auto simp: evolves_inc all_evolve_refl split: option.splits prod.splits)

lemma length_updateMany_inc: "length (fst (updateMany_inc P d rs)) = length rs"
  by (induction rs) (auto split: option.splits prod.splits)

lemma promoteWaitlist_evolves:
  "list_all2 evolves (requests s) (requests (fst (promoteWaitlist s now bid)))"
proof (cases "findOne (\<lambda>r. is_waitlisted_for bid r \<and> waitlistPosition r = Some 1) (requests s)")
  case None
  then show ?thesis by (simp add: promoteWaitlist_def all_evolve_refl)
next
  case (Some i)
  let ?saved = "(requests s)[i := promoted now (requests s ! i)]"
  from findOne_SomeD [OF Some] have i: "i < length (requests s)"
    "is_waitlisted_for bid (requests s ! i)" by blast+
  then have "evolves (requests s ! i) (promoted now (requests s ! i))"
    by (simp add: evolves_def promoted_def is_waitlisted_for_def is_active_status_def)
  with i(1) have 1: "list_all2 evolves (requests s) ?saved" by (rule all_evolve_update)
  have 2: "list_all2 evolves ?saved (fst (updateMany_inc (is_waitlisted_for bid) (- 1) ?saved))"
    by (rule all_evolve_inc)
  have "requests (fst (promoteWaitlist s now bid))
      = fst (updateMany_inc (is_waitlisted_for bid) (- 1) ?saved)"
    using Some by (simp add: promoteWaitlist_def promoted_def Let_def split: prod.splits option.splits)
  with all_evolve_trans [OF 1 2] show ?thesis by simp
qed

lemma promoteWaitlist_books: "books (fst (promoteWaitlist s now bid)) = books s"
  by (simp add: promoteWaitlist_def Let_def split: prod.splits option.splits)

lemma approveRequest_evolves:
  "list_all2 evolves (requests s) (requests (fst (approveRequest s now lib rid)))"
  by (auto simp: approveRequest_def findById_def Let_def evolves_def is_active_status_def
           intro!: all_evolve_update all_evolve_refl)

lemma rejectRequest_evolves:
  "list_all2 evolves (requests s) (requests (fst (rejectRequest s now lib rid reason)))"
  by (auto simp: rejectRequest_def findById_def Let_def evolves_def is_active_status_def
           intro!: all_evolve_update all_evolve_refl)

lemma issueBook_evolves:
  "list_all2 evolves (requests s) (requests (fst (issueBook s now lib rid)))"
  by (auto simp: issueBook_def findById_def Let_def evolves_def is_active_status_def
           split: option.splits sum.splits
           intro!: all_evolve_update all_evolve_refl)

lemma cancelRequest_evolves:
  "list_all2 evolves (requests s) (requests (fst (cancelRequest s uid rid)))"
proof (cases "rid < length (requests s) \<and> user (requests s ! rid) = uid
              \<and> status (requests s ! rid) \<in> {Pending, Waitlisted}")
  case False
  then show ?thesis
    by (auto simp: cancelRequest_def findById_def all_evolve_refl)
next
  case True
  let ?c = "(requests s ! rid)\<lparr>status := Cancelled, waitlistPosition := None\<rparr>"
  let ?saved = "(requests s)[rid := ?c]"
  have "evolves (requests s ! rid) ?c"
    by (simp add: evolves_def is_active_status_def)
  with True have 1: "list_all2 evolves (requests s) ?saved" by (intro all_evolve_update) simp_all
  show ?thesis
  proof (cases "status (requests s ! rid) = Waitlisted")
    case False
    with True 1 show ?thesis
      by (simp add: cancelRequest_def findById_def Let_def)
  next
    case wl: True
    let ?P = "\<lambda>r. is_waitlisted_for (book (requests s ! rid)) r
                \<and> gt_query (waitlistPosition r) (waitlistPosition (requests s ! rid))"
    have "requests (fst (cancelRequest s uid rid)) = fst (updateMany_inc ?P (- 1) ?saved)"
      using True wl by (simp add: cancelRequest_def findById_def Let_def split: prod.splits option.splits)
    with all_evolve_trans [OF 1 all_evolve_inc [of ?saved ?P "- 1"]] show ?thesis by simp
  qed
qed

lemma returnBook_evolves:
  "list_all2 evolves (requests s) (requests (fst (returnBook s now t lib rid)))"
proof (cases "rid < length (requests s) \<and> status (requests s ! rid) = Issued
              \<and> (\<exists>bk. books s (book (requests s ! rid)) = Some bk \<and> - 1 \<le> availableCopies bk)")
  case False
  then have "fst (returnBook s now t lib rid) = s"
    by (auto simp: returnBook_def findById_def Book_save_def js_add_neg_iff split: option.splits)
  then show ?thesis by (simp add: all_evolve_refl)
next
  case True
  then obtain bk where bk: "books s (book (requests s ! rid)) = Some bk" "- 1 \<le> availableCopies bk"
    by blast
  let ?req' = "(requests s ! rid)\<lparr>status := Returned, returnedAt := Some now, returnAcceptedBy := Some lib\<rparr>"
  let ?s1 = "s\<lparr>books := (books s)(book (requests s ! rid) \<mapsto>
                 Book_pre_save (bk\<lparr>availableCopies := js_add (availableCopies bk) 1\<rparr>)),
               requests := (requests s)[rid := ?req']\<rparr>"
  have "evolves (requests s ! rid) ?req'"
    by (simp add: evolves_def is_active_status_def)
  with True have 1: "list_all2 evolves (requests s) (requests ?s1)"
    by (simp add: all_evolve_update)
  have "fst (returnBook s now t lib rid) = fst (promoteWaitlist ?s1 t (book (requests s ! rid)))"
    using True bk
    by (simp add: returnBook_def findById_def Book_save_def Let_def js_add_neg_iff
             split: prod.splits option.splits)
  with all_evolve_trans [OF 1 promoteWaitlist_evolves [of ?s1 t "book (requests s ! rid)"]]
  show ?thesis by simp
qed

lemma updateBook_requests: "requests (fst (updateBook s bid upd)) = requests s"
  by (simp add: updateBook_def Let_def split: option.splits)

section \<open>Steps and runs\<close>

lemma createRequest_requests:
  "requests (fst (createRequest s uid bid rt note)) = requests s
   \<or> (\<exists>r. requests (fst (createRequest s uid bid rt note)) = requests s @ [r]
          \<and> snd (createRequest s uid bid rt note) = Inr r
          \<and> book r = bid \<and> user r = uid \<and> requestType r = rt
          \<and> (status r = Pending \<and> waitlistPosition r = None
              \<or> status r = Waitlisted
                \<and> waitlistPosition r
                    = Some (int (length (filter (is_waitlisted_for bid) (requests s))) + 1))
          \<and> (\<forall>q\<in>set (requests s).
                \<not> (book q = bid \<and> user q = uid \<and> is_active_status (status q))))"
proof (cases "findOne (\<lambda>r. book r = bid \<and> user r = uid \<and> is_active_status (status r)) (requests s)")
  case (Some i)
  then show ?thesis by (simp add: createRequest_def split: option.splits)
next
  case None
  then have nd: "\<forall>q\<in>set (requests s). \<not> (book q = bid \<and> user q = uid \<and> is_active_status (status q))"
    by (simp only: findOne_None_iff)
  show ?thesis
    using nd
    by (simp add: createRequest_def None BookRequest_create_def new_request_def countDocuments_def
                  Let_def split: option.splits)
qed

lemma createRequest_books: "books (fst (createRequest s uid bid rt note)) = books s"
  by (simp add: createRequest_def BookRequest_create_def Let_def split: option.splits)

lemma createRequest_snd_status:
  "snd (createRequest s uid bid rt note) = Inr r \<Longrightarrow> status r = Pending \<or> status r = Waitlisted"
  by (auto simp: createRequest_def BookRequest_create_def new_request_def Let_def
           split: option.splits if_splits)

lemma step_evolves:
  "\<exists>rs'. requests (step s a) = take (length (requests s)) (requests (step s a)) @ rs'
         \<and> list_all2 evolves (requests s) (take (length (requests s)) (requests (step s a)))
         \<and> (\<forall>r\<in>set rs'. status r \<noteq> Issued
               \<and> (\<forall>q\<in>set (requests s).
                     \<not> (book q = book r \<and> user q = user r \<and> is_active_status (status q))))
         \<and> length rs' \<le> 1"
proof (cases a)
  case (CreateRequest uid bid rt nt)
  from createRequest_requests [of s uid bid rt nt] show ?thesis
  proof
    assume "requests (fst (createRequest s uid bid rt nt)) = requests s"
    then show ?thesis using CreateRequest by (simp add: all_evolve_refl)
  next
    assume "\<exists>r. requests (fst (createRequest s uid bid rt nt)) = requests s @ [r]
          \<and> snd (createRequest s uid bid rt nt) = Inr r
          \<and> book r = bid \<and> user r = uid \<and> requestType r = rt
          \<and> (status r = Pending \<and> waitlistPosition r = None
              \<or> status r = Waitlisted
                \<and> waitlistPosition r
                    = Some (int (length (filter (is_waitlisted_for bid) (requests s))) + 1))
          \<and> (\<forall>q\<in>set (requests s).
                \<not> (book q = bid \<and> user q = uid \<and> is_active_status (status q)))"
    then obtain r where r: "requests (fst (createRequest s uid bid rt nt)) = requests s @ [r]"
      "book r = bid" "user r = uid" "status r = Pending \<or> status r = Waitlisted"
      "\<forall>q\<in>set (requests s). \<not> (book q = bid \<and> user q = uid \<and> is_active_status (status q))"
      by blast
    have "requests (step s a) = take (length (requests s)) (requests (step s a)) @ [r]"
      "take (length (requests s)) (requests (step s a)) = requests s"
      using CreateRequest r(1) by simp_all
    moreover have "status r \<noteq> Issued" using r(4) by auto
    ultimately show ?thesis using r(2,3,5) by (intro exI [of _ "[r]"]) (simp add: all_evolve_refl)
  qed
next
  case (CancelRequest uid rid)
  have "length (requests (fst (cancelRequest s uid rid))) = length (requests s)"
    using cancelRequest_evolves [of s uid rid] by (simp add: list_all2_lengthD)
  with CancelRequest cancelRequest_evolves [of s uid rid] show ?thesis by simp
next
  case (ApproveRequest now lib rid)
  have "length (requests (fst (approveRequest s now lib rid))) = length (requests s)"
    using approveRequest_evolves [of s now lib rid] by (simp add: list_all2_lengthD)
  with ApproveRequest approveRequest_evolves [of s now lib rid] show ?thesis by simp
next
  case (RejectRequest now lib rid reason)
  have "length (requests (fst (rejectRequest s now lib rid reason))) = length (requests s)"
    using rejectRequest_evolves [of s now lib rid reason] by (simp add: list_all2_lengthD)
  with RejectRequest rejectRequest_evolves [of s now lib rid reason] show ?thesis by simp
next
  case (IssueBook now lib rid)
  have "length (requests (fst (issueBook s now lib rid))) = length (requests s)"
    using issueBook_evolves [of s now lib rid] by (simp add: list_all2_lengthD)
  with IssueBook issueBook_evolves [of s now lib rid] show ?thesis by simp
next
  case (ReturnBook now t lib rid)
  have "length (requests (fst (returnBook s now t lib rid))) = length (requests s)"
    using returnBook_evolves [of s now t lib rid] by (simp add: list_all2_lengthD)
  with ReturnBook returnBook_evolves [of s now t lib rid] show ?thesis by simp
next
  case (UpdateBook bid upd)
  then show ?thesis by (simp add: updateBook_requests all_evolve_refl)
qed

lemma run_Nil [simp]: "run s [] = s"
  by (simp add: run_def)

lemma run_Cons [simp]: "run s (a # acts) = run (step s a) acts"
  by (simp add: run_def)

lemma step_issued_are_borrows:
  assumes "issued_are_borrows s"
  shows "issued_are_borrows (step s a)"
proof -
  from step_evolves [of s a] obtain rs' where
    split: "requests (step s a) = take (length (requests s)) (requests (step s a)) @ rs'"
    and ev: "list_all2 evolves (requests s) (take (length (requests s)) (requests (step s a)))"
    and new: "\<forall>r\<in>set rs'. status r \<noteq> Issued"
    by blast
  have "status r = Issued \<longrightarrow> requestType r = Borrow" if "r \<in> set (requests (step s a))" for r
  proof -
    from that split have "r \<in> set (take (length (requests s)) (requests (step s a))) \<or> r \<in> set rs'"
      by (metis Un_iff set_append)
    then show ?thesis
    proof
      assume "r \<in> set (take (length (requests s)) (requests (step s a)))"
      then obtain i where i: "i < length (take (length (requests s)) (requests (step s a)))"
        "take (length (requests s)) (requests (step s a)) ! i = r"
        by (auto simp: in_set_conv_nth)
      from ev i have "evolves (requests s ! i) r" "i < length (requests s)"
        by (auto simp: list_all2_conv_all_nth)
      with assms show ?thesis
        by (auto simp: evolves_def issued_are_borrows_def)
    next
      assume "r \<in> set rs'"
      with new show ?thesis by blast
    qed
  qed
  then show ?thesis by (simp add: issued_are_borrows_def)
qed

lemma run_issued_are_borrows: "issued_are_borrows s \<Longrightarrow> issued_are_borrows (run s acts)"
  by (induction acts arbitrary: s) (simp_all add: step_issued_are_borrows)

section \<open>Counting active requests and bounding the counters\<close>

lemma evolves_active_count:
  "list_all2 evolves xs ys \<Longrightarrow>
   length (filter (\<lambda>r. book r = bid \<and> user r = uid \<and> is_active_status (status r)) ys)
     \<le> length (filter (\<lambda>r. book r = bid \<and> user r = uid \<and> is_active_status (status r)) xs)"
  by (induction rule: list_all2_induct) (auto simp: evolves_def)

lemma step_active_count:
  assumes inv: "\<And>bid uid. active_count s bid uid \<le> 1"
  shows "active_count (step s a) bid uid \<le> 1"
proof -
  let ?Q = "\<lambda>r. book r = bid \<and> user r = uid \<and> is_active_status (status r)"
  let ?pre = "take (length (requests s)) (requests (step s a))"
  from step_evolves [of s a] obtain rs' where
    split: "requests (step s a) = ?pre @ rs'"
    and ev: "list_all2 evolves (requests s) ?pre"
    and new: "\<forall>r\<in>set rs'. \<forall>q\<in>set (requests s).
                \<not> (book q = book r \<and> user q = user r \<and> is_active_status (status q))"
    and len: "length rs' \<le> 1"
    by blast
  have pre: "length (filter ?Q ?pre) \<le> active_count s bid uid"
    unfolding active_count_def by (rule evolves_active_count [OF ev])
  have cnt: "active_count (step s a) bid uid = length (filter ?Q ?pre) + length (filter ?Q rs')"
    unfolding active_count_def by (subst split) simp
  show ?thesis
  proof (cases "filter ?Q rs' = []")
    case True
    with cnt pre inv [of bid uid] show ?thesis by simp
  next
    case False
    then obtain r where r: "r \<in> set rs'" "?Q r"
      by (auto simp: filter_empty_conv)
    with new have "\<forall>q\<in>set (requests s). \<not> ?Q q" by auto
    then have "active_count s bid uid = 0"
      by (simp add: active_count_def filter_empty_conv)
    with pre have "length (filter ?Q ?pre) = 0" by simp
    moreover have "length (filter ?Q rs') \<le> 1"
      using len length_filter_le [of ?Q rs'] by linarith
    ultimately show ?thesis using cnt by simp
  qed
qed

lemma run_active_count:
  "(\<And>bid uid. active_count s bid uid \<le> 1) \<Longrightarrow> active_count (run s acts) bid uid \<le> 1"
proof (induction acts arbitrary: s)
  case Nil
  then show ?case by simp
next
  case (Cons a acts)
  show ?case
    unfolding run_Cons
    by (rule Cons.IH) (rule step_active_count, rule Cons.prems)
qed

lemma Book_pre_save_bounds:
  "0 \<le> availableCopies bk \<Longrightarrow> 0 \<le> totalCopies bk \<Longrightarrow>
   0 \<le> availableCopies (Book_pre_save bk)
   \<and> availableCopies (Book_pre_save bk) \<le> totalCopies (Book_pre_save bk)"
  by (simp add: Book_pre_save_def)

lemma copies_in_bounds_upd:
  assumes "copies_in_bounds s"
    and "books s' = (books s)(bid \<mapsto> bk')"
    and "0 \<le> availableCopies bk' \<and> availableCopies bk' \<le> totalCopies bk'"
  shows "copies_in_bounds s'"
proof -
  have "ran (books s') \<subseteq> insert bk' (ran (books s))"
    unfolding assms(2) by (auto simp: ran_def split: if_splits)
  with assms(1,3) show ?thesis
    unfolding copies_in_bounds_def by blast
qed

lemma copies_in_bounds_same: "copies_in_bounds s \<Longrightarrow> books s' = books s \<Longrightarrow> copies_in_bounds s'"
  by (simp add: copies_in_bounds_def)

lemma copies_in_boundsD:
  "copies_in_bounds s \<Longrightarrow> books s bid = Some bk \<Longrightarrow>
   0 \<le> availableCopies bk \<and> availableCopies bk \<le> totalCopies bk"
  by (auto simp: copies_in_bounds_def ran_def)

lemma issueBook_books:
  "books (fst (issueBook s now lib rid)) = books s
   \<or> (\<exists>bid bk. books s bid = Some bk \<and> 1 \<le> availableCopies bk
        \<and> books (fst (issueBook s now lib rid))
            = (books s)(bid \<mapsto>
                 Book_pre_save (bk\<lparr>availableCopies := js_add (availableCopies bk) (- 1)\<rparr>)))"
proof (cases "rid < length (requests s) \<and> status (requests s ! rid) = Approved
              \<and> requestType (requests s ! rid) = Borrow
              \<and> (\<exists>bk. books s (book (requests s ! rid)) = Some bk \<and> 1 \<le> availableCopies bk)")
  case False
  then have "fst (issueBook s now lib rid) = s"
    by (auto simp: issueBook_def findById_def split: option.splits)
  then show ?thesis by simp
next
  case True
  then obtain bk where bk: "books s (book (requests s ! rid)) = Some bk" "1 \<le> availableCopies bk"
    by blast
  from True have rid: "rid < length (requests s)" and st: "status (requests s ! rid) = Approved"
    and ty: "requestType (requests s ! rid) = Borrow" by simp_all
  have "books (fst (issueBook s now lib rid))
      = (books s)(book (requests s ! rid) \<mapsto>
           Book_pre_save (bk\<lparr>availableCopies := js_add (availableCopies bk) (- 1)\<rparr>))"
    unfolding issueBook_eq [OF rid st ty bk]
    by (cases "valid_time (due_time now (borrowDurationDays bk))") simp_all
  with bk show ?thesis by blast
qed

lemma returnBook_books:
  "books (fst (returnBook s now t lib rid)) = books s
   \<or> (\<exists>bid bk. books s bid = Some bk \<and> 0 \<le> availableCopies bk + 1
        \<and> books (fst (returnBook s now t lib rid))
            = (books s)(bid \<mapsto>
                 Book_pre_save (bk\<lparr>availableCopies := js_add (availableCopies bk) 1\<rparr>)))"
proof (cases "rid < length (requests s) \<and> status (requests s ! rid) = Issued
              \<and> (\<exists>bk. books s (book (requests s ! rid)) = Some bk \<and> - 1 \<le> availableCopies bk)")
  case False
  then have "fst (returnBook s now t lib rid) = s"
    by (auto simp: returnBook_def findById_def Book_save_def js_add_neg_iff split: option.splits)
  then show ?thesis by simp
next
  case True
  then obtain bk where bk: "books s (book (requests s ! rid)) = Some bk" "- 1 \<le> availableCopies bk"
    by blast
  let ?req' = "(requests s ! rid)\<lparr>status := Returned, returnedAt := Some now, returnAcceptedBy := Some lib\<rparr>"
  let ?s1 = "s\<lparr>books := (books s)(book (requests s ! rid) \<mapsto>
                 Book_pre_save (bk\<lparr>availableCopies := js_add (availableCopies bk) 1\<rparr>)),
               requests := (requests s)[rid := ?req']\<rparr>"
  have "fst (returnBook s now t lib rid) = fst (promoteWaitlist ?s1 t (book (requests s ! rid)))"
    using True bk
    by (simp add: returnBook_def findById_def Book_save_def Let_def js_add_neg_iff
             split: prod.splits option.splits)
  then have "books (fst (returnBook s now t lib rid)) = books ?s1"
    by (simp only: promoteWaitlist_books)
  then have "books (fst (returnBook s now t lib rid))
      = (books s)(book (requests s ! rid) \<mapsto>
           Book_pre_save (bk\<lparr>availableCopies := js_add (availableCopies bk) 1\<rparr>))"
    by simp
  moreover from bk(2) have "0 \<le> availableCopies bk + 1" by simp
  ultimately show ?thesis using bk(1) by blast
qed

lemma updateBook_bounds:
  assumes "copies_in_bounds s"
  shows "copies_in_bounds (fst (updateBook s bid upd))"
proof (cases "books s bid")
  case None
  then show ?thesis using assms by (simp add: updateBook_def)
next
  case (Some bk)
  let ?bk1 = "bk\<lparr> bookType := assigned (u_bookType upd) (bookType bk),
                  totalCopies := assigned (u_totalCopies upd) (totalCopies bk),
                  availableCopies := assigned (u_availableCopies upd) (availableCopies bk),
                  fileUrl := assigned (u_fileUrl upd) (fileUrl bk),
                  borrowDurationDays := assigned (u_borrowDurationDays upd) (borrowDurationDays bk),
                  isActive := assigned (u_isActive upd) (isActive bk) \<rparr>"
  from copies_in_boundsD [OF assms Some]
  have old: "0 \<le> availableCopies bk" "availableCopies bk \<le> totalCopies bk" by simp_all
  show ?thesis
  proof (cases "modified_below (u_totalCopies upd) (totalCopies bk) 0
              \<or> modified_below (u_availableCopies upd) (availableCopies bk) 0
              \<or> modified_below (u_borrowDurationDays upd) (borrowDurationDays bk) 1")
    case True
    then have "fst (updateBook s bid upd) = s"
      by (auto simp: updateBook_def Some Let_def)
    with assms show ?thesis by simp
  next
    case False
    then have st: "books (fst (updateBook s bid upd)) = (books s)(bid \<mapsto> Book_pre_save ?bk1)"
      by (simp add: updateBook_def Some Let_def)
    from False old have "0 \<le> availableCopies ?bk1" "0 \<le> totalCopies ?bk1"
      by (auto simp: modified_below_def assigned_def split: option.splits)
    from Book_pre_save_bounds [OF this] copies_in_bounds_upd [OF assms st] show ?thesis
      by blast
  qed
qed

lemma step_copies_in_bounds:
  assumes inv: "copies_in_bounds s"
  shows "copies_in_bounds (step s a)"
proof (cases a)
  case (CreateRequest uid bid rt nt)
  with inv show ?thesis by (simp add: copies_in_bounds_same createRequest_books)
next
  case (CancelRequest uid rid)
  have "books (fst (cancelRequest s uid rid)) = books s"
    by (simp add: cancelRequest_def Let_def split: option.splits prod.splits)
  with inv CancelRequest show ?thesis by (simp add: copies_in_bounds_same)
next
  case (ApproveRequest now lib rid)
  have "books (fst (approveRequest s now lib rid)) = books s"
    by (simp add: approveRequest_def Let_def split: option.splits)
  with inv ApproveRequest show ?thesis by (simp add: copies_in_bounds_same)
next
  case (RejectRequest now lib rid reason)
  have "books (fst (rejectRequest s now lib rid reason)) = books s"
    by (simp add: rejectRequest_def Let_def split: option.splits)
  with inv RejectRequest show ?thesis by (simp add: copies_in_bounds_same)
next
  case (IssueBook now lib rid)
  from issueBook_books [of s now lib rid] show ?thesis
  proof (elim disjE exE conjE)
    assume "books (fst (issueBook s now lib rid)) = books s"
    with inv IssueBook show ?thesis by (simp add: copies_in_bounds_same)
  next
    fix bid bk
    assume bk: "books s bid = Some bk" "1 \<le> availableCopies bk"
      and st: "books (fst (issueBook s now lib rid))
            = (books s)(bid \<mapsto>
                 Book_pre_save (bk\<lparr>availableCopies := js_add (availableCopies bk) (- 1)\<rparr>))"
    from bk(2) have "0 \<le> js_add (availableCopies bk) (- 1)" by (intro js_add_nonneg) simp
    with copies_in_boundsD [OF inv bk(1)] bk(2)
    have "0 \<le> availableCopies (bk\<lparr>availableCopies := js_add (availableCopies bk) (- 1)\<rparr>)"
      "0 \<le> totalCopies (bk\<lparr>availableCopies := js_add (availableCopies bk) (- 1)\<rparr>)"
      by simp_all
    from Book_pre_save_bounds [OF this] copies_in_bounds_upd [OF inv st] IssueBook
    show ?thesis by simp
  qed
next
  case (ReturnBook now t lib rid)
  from returnBook_books [of s now t lib rid] show ?thesis
  proof (elim disjE exE conjE)
    assume "books (fst (returnBook s now t lib rid)) = books s"
    with inv ReturnBook show ?thesis by (simp add: copies_in_bounds_same)
  next
    fix bid bk
    assume bk: "books s bid = Some bk" "0 \<le> availableCopies bk + 1"
      and st: "books (fst (returnBook s now t lib rid))
            = (books s)(bid \<mapsto>
                 Book_pre_save (bk\<lparr>availableCopies := js_add (availableCopies bk) 1\<rparr>))"
    from bk(2) have "0 \<le> js_add (availableCopies bk) 1" by (rule js_add_nonneg)
    with copies_in_boundsD [OF inv bk(1)]
    have "0 \<le> availableCopies (bk\<lparr>availableCopies := js_add (availableCopies bk) 1\<rparr>)"
      "0 \<le> totalCopies (bk\<lparr>availableCopies := js_add (availableCopies bk) 1\<rparr>)"
      by simp_all
    from Book_pre_save_bounds [OF this] copies_in_bounds_upd [OF inv st] ReturnBook
    show ?thesis by simp
  qed
next
  case (UpdateBook bid upd)
  with updateBook_bounds [OF inv] show ?thesis by simp
qed

lemma run_copies_in_bounds: "copies_in_bounds s \<Longrightarrow> copies_in_bounds (run s acts)"
  by (induction acts arbitrary: s) (simp_all add: step_copies_in_bounds)

section \<open>The operations keep every waitlist contiguous\<close>

lemma positions_decompose:
  assumes "i < length xs" "W (xs ! i)" "\<not> W c"
    and "\<And>r. W (g r) = W r"
    and "\<And>r. W r \<Longrightarrow> waitlistPosition (g r) = f (waitlistPosition r)"
  shows "\<exists>A B. map waitlistPosition (filter W xs) = A @ waitlistPosition (xs ! i) # B
             \<and> map waitlistPosition (filter W (map g (xs[i := c]))) = map f (A @ B)"
proof -
  let ?A = "map waitlistPosition (filter W (take i xs))"
  let ?B = "map waitlistPosition (filter W (drop (Suc i) xs))"
  have 1: "map waitlistPosition (filter W xs) = ?A @ waitlistPosition (xs ! i) # ?B"
    using filter_split_at [of i xs W] assms(1,2) by simp
  have "map waitlistPosition (filter W (map g (xs[i := c])))
      = map f (map waitlistPosition (filter W (xs[i := c])))"
    by (rule positions_map) (fact assms(4), fact assms(5))
  also have "\<dots> = map f (?A @ ?B)"
    using filter_update_removed [of i xs W c] assms(1,3) by simp
  finally show ?thesis using 1 by blast
qed

lemma positions_untouched:
  assumes "i < length xs" "\<not> W (xs ! i)" "\<not> W c"
    and "\<And>r. W (g r) = W r"
    and "\<And>r. W r \<Longrightarrow> waitlistPosition (g r) = waitlistPosition r"
  shows "map waitlistPosition (filter W (map g (xs[i := c]))) = map waitlistPosition (filter W xs)"
proof -
  have "map waitlistPosition (filter W (map g (xs[i := c])))
      = map (\<lambda>q. q) (map waitlistPosition (filter W (xs[i := c])))"
    by (rule positions_map) (fact assms(4), fact assms(5))
  then show ?thesis using filter_update_same [of i xs W c] assms(1,2,3) by simp
qed

lemma positions_plain_update:
  assumes "i < length (requests s)" "status (requests s ! i) \<noteq> Waitlisted" "status c \<noteq> Waitlisted"
    and "requests s' = (requests s)[i := c]"
  shows "waitlist_positions s' bid = waitlist_positions s bid"
proof -
  have "filter (is_waitlisted_for bid) ((requests s)[i := c]) = filter (is_waitlisted_for bid) (requests s)"
    using assms(1,2,3) by (intro filter_update_same) (simp_all add: is_waitlisted_for_def)
  with assms(4) show ?thesis by (simp add: waitlist_positions_def)
qed

lemma positions_same: "requests s' = requests s \<Longrightarrow> waitlist_positions s' bid = waitlist_positions s bid"
  by (simp add: waitlist_positions_def)


lemma cancelRequest_contiguous:
  assumes inv: "\<And>b. waitlist_contiguous s b"
  shows "waitlist_contiguous (fst (cancelRequest s uid rid)) bid"
proof (cases "rid < length (requests s) \<and> user (requests s ! rid) = uid
              \<and> status (requests s ! rid) \<in> {Pending, Waitlisted}")
  case False
  then have "fst (cancelRequest s uid rid) = s"
    by (auto simp: cancelRequest_def findById_def)
  with inv show ?thesis by simp
next
  case True
  let ?rs = "requests s"
  let ?c = "(?rs ! rid)\<lparr>status := Cancelled, waitlistPosition := None\<rparr>"
  show ?thesis
  proof (cases "status (?rs ! rid) = Waitlisted")
    case False
    with True have "requests (fst (cancelRequest s uid rid)) = ?rs[rid := ?c]"
      by (simp add: cancelRequest_def findById_def Let_def)
    moreover have "rid < length ?rs" "status ?c \<noteq> Waitlisted" using True by simp_all
    ultimately have "waitlist_positions (fst (cancelRequest s uid rid)) bid = waitlist_positions s bid"
      using False by (intro positions_plain_update [where i = rid and c = ?c])
    with inv [of bid] show ?thesis by (simp add: waitlist_contiguous_def)
  next
    case wl: True
    let ?b = "book (?rs ! rid)"
    from True have rid: "rid < length ?rs" and own: "user (?rs ! rid) = uid" by simp_all
    have W: "is_waitlisted_for ?b (?rs ! rid)" using wl by (simp add: is_waitlisted_for_def)
    with rid have "waitlistPosition (?rs ! rid) \<in> set (waitlist_positions s ?b)"
      by (simp add: waitlist_positions_def)
    with inv [of ?b] obtain k where pos: "waitlistPosition (?rs ! rid) = Some k"
      unfolding waitlist_contiguous_def by (blast dest: contiguous_all_Some)
    let ?g = "\<lambda>r. if is_waitlisted_for ?b r \<and> gt_query (waitlistPosition r) (Some k)
                then shift_position (- 1) r else r"
    have rs': "requests (fst (cancelRequest s uid rid)) = map ?g (?rs[rid := ?c])"
      by (simp add: cancelRequest_waitlisted_eq [OF rid own wl pos])
    have gW: "\<And>b r. is_waitlisted_for b (?g r) = is_waitlisted_for b r"
      by (simp add: is_waitlisted_for_def shift_position_def)
    show ?thesis
    proof (cases "bid = ?b")
      case True
      have nc: "\<not> is_waitlisted_for ?b ?c" by (simp add: is_waitlisted_for_def)
      have gp: "\<And>r. is_waitlisted_for ?b r \<Longrightarrow>
                  waitlistPosition (?g r) = renumber k (waitlistPosition r)"
        by (simp add: renumber_def shift_position_def)
      have "\<exists>A B. map waitlistPosition (filter (is_waitlisted_for ?b) ?rs)
                     = A @ waitlistPosition (?rs ! rid) # B
                 \<and> map waitlistPosition (filter (is_waitlisted_for ?b) (map ?g (?rs[rid := ?c])))
                     = map (renumber k) (A @ B)"
        using rid W nc gW [of ?b] gp
        by (rule positions_decompose [where W = "is_waitlisted_for ?b" and g = ?g and f = "renumber k"])
      then obtain A B where
        AB: "waitlist_positions s ?b = A @ Some k # B"
            "map waitlistPosition (filter (is_waitlisted_for ?b) (map ?g (?rs[rid := ?c])))
               = map (renumber k) (A @ B)"
        unfolding waitlist_positions_def pos by blast
      from inv [of ?b] have "contiguous (A @ Some k # B)"
        by (simp add: waitlist_contiguous_def AB(1))
      then have "contiguous (map (renumber k) (A @ B))" by (rule contiguous_remove)
      then have "contiguous (waitlist_positions (fst (cancelRequest s uid rid)) ?b)"
        unfolding waitlist_positions_def rs' AB(2) .
      then show ?thesis
        by (simp only: True waitlist_contiguous_def)
    next
      case False
      have n1: "\<not> is_waitlisted_for bid (?rs ! rid)" and n2: "\<not> is_waitlisted_for bid ?c"
        using False by (simp_all add: is_waitlisted_for_def)
      have gp: "\<And>r. is_waitlisted_for bid r \<Longrightarrow> waitlistPosition (?g r) = waitlistPosition r"
        using False by (auto simp: is_waitlisted_for_def)
      have "map waitlistPosition (filter (is_waitlisted_for bid) (map ?g (?rs[rid := ?c])))
          = map waitlistPosition (filter (is_waitlisted_for bid) ?rs)"
        using rid n1 n2 gW [of bid] gp
        by (rule positions_untouched [where W = "is_waitlisted_for bid" and g = ?g])
      then have "waitlist_positions (fst (cancelRequest s uid rid)) bid = waitlist_positions s bid"
        unfolding waitlist_positions_def rs' .
      with inv [of bid] show ?thesis by (simp add: waitlist_contiguous_def)
    qed
  qed
qed


lemma createRequest_contiguous:
  assumes inv: "\<And>b. waitlist_contiguous s b"
  shows "waitlist_contiguous (fst (createRequest s uid bid' rt nt)) bid"
proof -
  let ?s' = "fst (createRequest s uid bid' rt nt)"
  from createRequest_requests [of s uid bid' rt nt]
  consider (same) "requests ?s' = requests s"
    | (pending) r where "requests ?s' = requests s @ [r]" "status r = Pending"
    | (queued) r where "requests ?s' = requests s @ [r]" "book r = bid'" "status r = Waitlisted"
        "waitlistPosition r = Some (int (length (filter (is_waitlisted_for bid') (requests s))) + 1)"
    by blast
  then show ?thesis
  proof cases
    case same
    with inv [of bid] show ?thesis
      by (simp add: waitlist_contiguous_def waitlist_positions_def)
  next
    case pending
    then have "waitlist_positions ?s' bid = waitlist_positions s bid"
      by (simp add: waitlist_positions_def is_waitlisted_for_def)
    with inv [of bid] show ?thesis by (simp add: waitlist_contiguous_def)
  next
    case queued
    show ?thesis
    proof (cases "bid = bid'")
      case True
      have "waitlist_positions ?s' bid
          = waitlist_positions s bid @ [Some (int (length (waitlist_positions s bid)) + 1)]"
        using queued True by (simp add: waitlist_positions_def is_waitlisted_for_def)
      with contiguous_append [of "waitlist_positions s bid"] inv [of bid] show ?thesis
        by (simp add: waitlist_contiguous_def)
    next
      case False
      with queued have "waitlist_positions ?s' bid = waitlist_positions s bid"
        by (simp add: waitlist_positions_def is_waitlisted_for_def)
      with inv [of bid] show ?thesis by (simp add: waitlist_contiguous_def)
    qed
  qed
qed

lemma approveRequest_shape:
  "requests (fst (approveRequest s now lib rid)) = requests s
   \<or> (rid < length (requests s) \<and> status (requests s ! rid) \<noteq> Waitlisted
        \<and> status (requests (fst (approveRequest s now lib rid)) ! rid) \<noteq> Waitlisted
        \<and> requests (fst (approveRequest s now lib rid))
            = (requests s)[rid := requests (fst (approveRequest s now lib rid)) ! rid])"
  by (simp add: approveRequest_def findById_def Let_def)

lemma rejectRequest_shape:
  "requests (fst (rejectRequest s now lib rid reason)) = requests s
   \<or> (rid < length (requests s) \<and> status (requests s ! rid) \<noteq> Waitlisted
        \<and> status (requests (fst (rejectRequest s now lib rid reason)) ! rid) \<noteq> Waitlisted
        \<and> requests (fst (rejectRequest s now lib rid reason))
            = (requests s)[rid := requests (fst (rejectRequest s now lib rid reason)) ! rid])"
  by (auto simp: rejectRequest_def findById_def Let_def)

lemma issueBook_shape:
  "requests (fst (issueBook s now lib rid)) = requests s
   \<or> (rid < length (requests s) \<and> status (requests s ! rid) \<noteq> Waitlisted
        \<and> status (requests (fst (issueBook s now lib rid)) ! rid) \<noteq> Waitlisted
        \<and> requests (fst (issueBook s now lib rid))
            = (requests s)[rid := requests (fst (issueBook s now lib rid)) ! rid])"
  by (simp add: issueBook_def findById_def Let_def Book_save_def split: option.splits)

lemma plain_shape_contiguous:
  assumes inv: "\<And>b. waitlist_contiguous s b"
    and shape: "requests s' = requests s
       \<or> (rid < length (requests s) \<and> status (requests s ! rid) \<noteq> Waitlisted
            \<and> status (requests s' ! rid) \<noteq> Waitlisted
            \<and> requests s' = (requests s)[rid := requests s' ! rid])"
  shows "waitlist_contiguous s' bid"
proof -
  from shape have "waitlist_positions s' bid = waitlist_positions s bid"
  proof (elim disjE conjE)
    assume "requests s' = requests s"
    then show ?thesis by (rule positions_same)
  next
    assume "rid < length (requests s)" "status (requests s ! rid) \<noteq> Waitlisted"
      "status (requests s' ! rid) \<noteq> Waitlisted"
      "requests s' = (requests s)[rid := requests s' ! rid]"
    then show ?thesis by (rule positions_plain_update)
  qed
  with inv [of bid] show ?thesis by (simp add: waitlist_contiguous_def)
qed


lemma returnBook_contiguous:
  assumes inv: "\<And>b. waitlist_contiguous s b"
  shows "waitlist_contiguous (fst (returnBook s now t lib rid)) bid"
proof (cases "rid < length (requests s) \<and> status (requests s ! rid) = Issued
              \<and> (\<exists>bk. books s (book (requests s ! rid)) = Some bk \<and> - 1 \<le> availableCopies bk)")
  case False
  then have "fst (returnBook s now t lib rid) = s"
    by (auto simp: returnBook_def findById_def Book_save_def js_add_neg_iff split: option.splits)
  with inv show ?thesis by simp
next
  case True
  then obtain bk where rid: "rid < length (requests s)" and iss: "status (requests s ! rid) = Issued"
    and bk: "books s (book (requests s ! rid)) = Some bk" and lo: "- 1 \<le> availableCopies bk"
    by blast
  let ?rs = "requests s"
  let ?b = "book (?rs ! rid)"
  let ?req' = "(?rs ! rid)\<lparr>status := Returned, returnedAt := Some now, returnAcceptedBy := Some lib\<rparr>"
  let ?rs1 = "?rs[rid := ?req']"
  let ?P = "\<lambda>r. is_waitlisted_for ?b r \<and> waitlistPosition r = Some 1"
  let ?g = "\<lambda>r. if is_waitlisted_for ?b r then shift_position (- 1) r else r"
  let ?s' = "fst (returnBook s now t lib rid)"
  note eq = returnBook_eq [OF rid iss bk lo inv [of ?b], where now = now and lib = lib and t = t]
  have same1: "\<And>b. map waitlistPosition (filter (is_waitlisted_for b) ?rs1) = waitlist_positions s b"
  proof -
    fix b
    have "filter (is_waitlisted_for b) ?rs1 = filter (is_waitlisted_for b) ?rs"
      using rid iss by (intro filter_update_same) (simp_all add: is_waitlisted_for_def)
    then show "map waitlistPosition (filter (is_waitlisted_for b) ?rs1) = waitlist_positions s b"
      by (simp add: waitlist_positions_def)
  qed
  show ?thesis
  proof (cases "findOne ?P ?rs1")
    case None
    with eq have "requests ?s' = ?rs1" by simp
    then have "waitlist_positions ?s' bid = waitlist_positions s bid"
      by (simp add: waitlist_positions_def same1)
    with inv [of bid] show ?thesis by (simp add: waitlist_contiguous_def)
  next
    case (Some j)
    let ?c = "promoted t (?rs1 ! j)"
    from Some eq have rs': "requests ?s' = map ?g (?rs1[j := ?c])" by simp
    from findOne_SomeD [OF Some] have j: "j < length ?rs1" "is_waitlisted_for ?b (?rs1 ! j)"
      "waitlistPosition (?rs1 ! j) = Some 1" by blast+
    have gW: "\<And>b r. is_waitlisted_for b (?g r) = is_waitlisted_for b r"
      by (simp add: is_waitlisted_for_def shift_position_def)
    have nc: "\<And>b. \<not> is_waitlisted_for b ?c"
      by (simp add: is_waitlisted_for_def promoted_def)
    show ?thesis
    proof (cases "bid = ?b")
      case True
      have gp: "\<And>r. is_waitlisted_for ?b r \<Longrightarrow>
                  waitlistPosition (?g r) = map_option (\<lambda>p. p + (- 1)) (waitlistPosition r)"
        by (simp add: shift_position_def)
      have "\<exists>A B. map waitlistPosition (filter (is_waitlisted_for ?b) ?rs1)
                     = A @ waitlistPosition (?rs1 ! j) # B
                 \<and> map waitlistPosition (filter (is_waitlisted_for ?b) (map ?g (?rs1[j := ?c])))
                     = map (map_option (\<lambda>p. p + (- 1))) (A @ B)"
        using j(1,2) nc [of ?b] gW [of ?b] gp
        by (rule positions_decompose [where W = "is_waitlisted_for ?b" and g = ?g
              and f = "map_option (\<lambda>p. p + (- 1))"])
      then obtain A B where
        AB: "waitlist_positions s ?b = A @ Some 1 # B"
            "map waitlistPosition (filter (is_waitlisted_for ?b) (map ?g (?rs1[j := ?c])))
               = map (map_option (\<lambda>p. p + (- 1))) (A @ B)"
        unfolding same1 j(3) by blast
      from inv [of ?b] have "contiguous (A @ Some 1 # B)"
        by (simp add: waitlist_contiguous_def AB(1))
      then have "contiguous (map (map_option (\<lambda>p. p + (- 1))) (A @ B))"
        by (rule contiguous_remove_head)
      then have "contiguous (waitlist_positions ?s' ?b)"
        unfolding waitlist_positions_def rs' AB(2) .
      then show ?thesis by (simp only: True waitlist_contiguous_def)
    next
      case False
      have n1: "\<not> is_waitlisted_for bid (?rs1 ! j)"
        using False j(2) by (simp add: is_waitlisted_for_def)
      have gp: "\<And>r. is_waitlisted_for bid r \<Longrightarrow> waitlistPosition (?g r) = waitlistPosition r"
        using False by (auto simp: is_waitlisted_for_def)
      have "map waitlistPosition (filter (is_waitlisted_for bid) (map ?g (?rs1[j := ?c])))
          = map waitlistPosition (filter (is_waitlisted_for bid) ?rs1)"
        using j(1) n1 nc [of bid] gW [of bid] gp
        by (rule positions_untouched [where W = "is_waitlisted_for bid" and g = ?g])
      then have "waitlist_positions ?s' bid = waitlist_positions s bid"
        unfolding waitlist_positions_def rs' same1 [unfolded waitlist_positions_def] .
      with inv [of bid] show ?thesis by (simp add: waitlist_contiguous_def)
    qed
  qed
qed

lemma step_contiguous:
  assumes inv: "\<And>b. waitlist_contiguous s b"
  shows "waitlist_contiguous (step s a) bid"
proof (cases a)
  case (CreateRequest uid bid' rt nt)
  with createRequest_contiguous [OF inv] show ?thesis by simp
next
  case (CancelRequest uid rid)
  with cancelRequest_contiguous [OF inv] show ?thesis by simp
next
  case (ApproveRequest now lib rid)
  with plain_shape_contiguous [OF inv approveRequest_shape] show ?thesis by simp
next
  case (RejectRequest now lib rid reason)
  with plain_shape_contiguous [OF inv rejectRequest_shape] show ?thesis by simp
next
  case (IssueBook now lib rid)
  with plain_shape_contiguous [OF inv issueBook_shape] show ?thesis by simp
next
  case (ReturnBook now t lib rid)
  with returnBook_contiguous [OF inv] show ?thesis by simp
next
  case (UpdateBook bid' upd)
  have "waitlist_positions (fst (updateBook s bid' upd)) bid = waitlist_positions s bid"
    by (rule positions_same) (rule updateBook_requests)
  with inv [of bid] UpdateBook show ?thesis by (simp add: waitlist_contiguous_def)
qed

lemma run_contiguous:
  "(\<And>b. waitlist_contiguous s b) \<Longrightarrow> waitlist_contiguous (run s acts) bid"
proof (induction acts arbitrary: s)
  case Nil
  then show ?case by simp
next
  case (Cons a acts)
  show ?case
    unfolding run_Cons
    by (rule Cons.IH) (rule step_contiguous, rule Cons.prems)
qed

section \<open>Invariants of every run\<close>

lemma scenario_queue:
  "run library0 (take 5 scenario) = library_two_waiting"
  by (simp add: scenario_def eval_defs example_defs)

lemma scenario_cancelled:
  "waitlist_positions (run library0 (take 6 scenario)) 0 = [Some 1]"
  by (simp add: scenario_def eval_defs example_defs waitlist_positions_def shift_position_def)

lemma scenario_final:
  "run library0 scenario =
     \<lparr> books = [0 \<mapsto> book_one],
       requests =
         [req_issued\<lparr>status := Returned, returnedAt := Some 300, returnAcceptedBy := Some 99\<rparr>,
          (new_request 0 11 Borrow [] Cancelled None),
          (new_request 0 12 Borrow [] Pending None)\<lparr>waitlistNotifiedAt := Some 301\<rparr>] \<rparr>"
  by (simp add: scenario_def eval_defs example_defs shift_position_def)

lemma library_inactive_reached:
  "run library0 [CreateRequest 10 0 Borrow [], UpdateBook 0 (no_update\<lparr>u_isActive := Some False\<rparr>)]
     = library_inactive"
  by (simp add: eval_defs example_defs)





text \<open>
  Claim C1 as stated fails when two calls overlap. The copy is out and nobody waits
  (\<open>library_issued\<close>, reached by \<open>library_issued_reached\<close>). Requesters 11 and 12
  both call \<^verbatim>\<open>createRequest\<close>; the call of 12 counts the waitlisted requests before
  the call of 11 has created its request and creates its own afterwards. Both requests
  are stored at position 1.
\<close>

lemma not_contiguous_clash: "\<not> contiguous [Some 1, Some 1]"
  using contiguous_distinct [of "[Some 1, Some 1]"] by auto






text \<open>
  Claim C10. If every issued request is a borrow request, this stays so after every run.
  \<^verbatim>\<open>createRequest\<close> never returns or stores a new issued request, and
  \<^verbatim>\<open>issueBook\<close> refuses a request that is not a borrow request and leaves the state
  unchanged; under the invariant \<^verbatim>\<open>returnBook\<close> refuses it too, so the increment of a
  return only ever applies to a borrow.
\<close>

theorem only_borrows_are_issued:
  "(issued_are_borrows s \<longrightarrow> issued_are_borrows (run s acts))
   \<and> (\<forall>r. snd (createRequest s uid bid rt nt) = Inr r \<longrightarrow> status r \<noteq> Issued)
   \<and> (\<forall>r\<in>set (requests (fst (createRequest s uid bid rt nt))).
         status r = Issued \<longrightarrow> r \<in> set (requests s))
   \<and> (rid < length (requests s) \<and> requestType (requests s ! rid) \<noteq> Borrow \<longrightarrow>
         (\<exists>e. issueBook s now lib rid = (s, Inl e)))
   \<and> (issued_are_borrows s \<and> rid < length (requests s)
        \<and> requestType (requests s ! rid) \<noteq> Borrow \<longrightarrow>
         (\<exists>e. returnBook s now t lib rid = (s, Inl e)))"
proof -
  have 1: "issued_are_borrows s \<longrightarrow> issued_are_borrows (run s acts)"
    by (simp add: run_issued_are_borrows)
  have 2: "\<forall>r. snd (createRequest s uid bid rt nt) = Inr r \<longrightarrow> status r \<noteq> Issued"
    using createRequest_snd_status [of s uid bid rt nt] by auto
  have 3: "\<forall>r\<in>set (requests (fst (createRequest s uid bid rt nt))).
         status r = Issued \<longrightarrow> r \<in> set (requests s)"
    using createRequest_requests [of s uid bid rt nt] by auto
  have 4: "rid < length (requests s) \<and> requestType (requests s ! rid) \<noteq> Borrow \<longrightarrow>
         (\<exists>e. issueBook s now lib rid = (s, Inl e))"
    by (simp add: issueBook_def findById_def)
  have 5: "issued_are_borrows s \<and> rid < length (requests s)
        \<and> requestType (requests s ! rid) \<noteq> Borrow \<longrightarrow>
         (\<exists>e. returnBook s now t lib rid = (s, Inl e))"
  proof (intro impI, elim conjE)
    assume a: "issued_are_borrows s" "rid < length (requests s)"
      "requestType (requests s ! rid) \<noteq> Borrow"
    then have "status (requests s ! rid) \<noteq> Issued"
      unfolding issued_are_borrows_def using nth_mem by blast
    with a(2) show "\<exists>e. returnBook s now t lib rid = (s, Inl e)"
      by (simp add: returnBook_def findById_def)
  qed
  from 1 2 3 4 5 show ?thesis by blast
qed

text \<open>
  After the first three steps of the scenario the one issued request is a borrow; an
  approved download request can be neither issued nor returned.
\<close>

theorem only_borrows_are_issued_witness:
  "issued_are_borrows library0
   \<and> issued_are_borrows (run library0 (take 3 scenario))
   \<and> map status (requests (run library0 (take 3 scenario))) = [Issued]
   \<and> map requestType (requests (run library0 (take 3 scenario))) = [Borrow]
   \<and> issued_are_borrows library_download
   \<and> requestType (requests library_download ! 0) \<noteq> Borrow
   \<and> (\<exists>e. issueBook library_download 200 99 0 = (library_download, Inl e))
   \<and> (\<exists>e. returnBook library_download 300 301 99 0 = (library_download, Inl e))"
proof -
  have h: "issued_are_borrows library0" and hd: "issued_are_borrows library_download"
    by (simp_all add: issued_are_borrows_def example_defs)
  have e: "run library0 (take 3 scenario) = library_issued"
    using library_issued_reached by (simp add: scenario_def)
  have m: "map status (requests library_issued) = [Issued]"
    "map requestType (requests library_issued) = [Borrow]"
    by (simp_all add: example_defs)
  have d: "0 < length (requests library_download)"
    "requestType (requests library_download ! 0) \<noteq> Borrow"
    by (simp_all add: example_defs)
  note t1 = only_borrows_are_issued [of library0 "take 3 scenario"]
  note t2 = only_borrows_are_issued [of library_download "[]" 10 0 Borrow "[]" 0 200 99 301]
  from t2 hd d have i: "\<exists>e. issueBook library_download 200 99 0 = (library_download, Inl e)"
    by blast
  from only_borrows_are_issued [of library_download "[]" 10 0 Borrow "[]" 0 300 99 301] hd d
  have r: "\<exists>e. returnBook library_download 300 301 99 0 = (library_download, Inl e)"
    by blast
  from t1 h have "issued_are_borrows (run library0 (take 3 scenario))" by blast
  with h hd m d(2) i r show ?thesis unfolding e by blast
qed

lemma createRequest_duplicate:
  assumes dup: "\<exists>q\<in>set (requests s). book q = bid \<and> user q = uid \<and> is_active_status (status q)"
  shows "\<exists>e. createRequest s uid bid rt nt = (s, Inl e)"
    and "books s bid = Some bk \<Longrightarrow> isActive bk \<Longrightarrow> \<not> (rt = Borrow \<and> bookType bk = Digital)
         \<Longrightarrow> \<not> (rt = Download \<and> bookType bk = Physical) \<Longrightarrow> \<not> (rt = Download \<and> fileUrl bk = [])
         \<Longrightarrow> \<exists>q\<in>set (requests s). book q = bid \<and> user q = uid \<and> is_active_status (status q)
               \<and> snd (createRequest s uid bid rt nt)
                   = Inl (HttpError 400 (''You already have an active '' @ status_name (status q)
                                          @ '' request for this book.''))"
proof -
  let ?P = "\<lambda>r. book r = bid \<and> user r = uid \<and> is_active_status (status r)"
  from dup have "findOne ?P (requests s) \<noteq> None" by (simp only: findOne_None_iff) blast
  then obtain i where i: "findOne ?P (requests s) = Some i" by blast
  show "\<exists>e. createRequest s uid bid rt nt = (s, Inl e)"
    by (simp add: createRequest_def i split: option.splits)
  from findOne_SomeD [OF i] have q: "requests s ! i \<in> set (requests s)" "?P (requests s ! i)"
    by simp_all
  assume "books s bid = Some bk" "isActive bk" "\<not> (rt = Borrow \<and> bookType bk = Digital)"
    "\<not> (rt = Download \<and> bookType bk = Physical)" "\<not> (rt = Download \<and> fileUrl bk = [])"
  then have "snd (createRequest s uid bid rt nt)
      = Inl (HttpError 400 (''You already have an active '' @ status_name (status (requests s ! i))
                             @ '' request for this book.''))"
    by (simp add: createRequest_def i)
  with q show "\<exists>q\<in>set (requests s). book q = bid \<and> user q = uid \<and> is_active_status (status q)
               \<and> snd (createRequest s uid bid rt nt)
                   = Inl (HttpError 400 (''You already have an active '' @ status_name (status q)
                                          @ '' request for this book.''))"
    by blast
qed

lemma step_length:
  assumes "\<And>uid bid rt nt. a \<noteq> CreateRequest uid bid rt nt"
  shows "length (requests (step s a)) = length (requests s)"
proof (cases a)
  case (CreateRequest uid bid rt nt)
  with assms show ?thesis by blast
next
  case (CancelRequest uid rid)
  with cancelRequest_evolves [of s uid rid] show ?thesis by (simp add: list_all2_lengthD)
next
  case (ApproveRequest now lib rid)
  with approveRequest_evolves [of s now lib rid] show ?thesis by (simp add: list_all2_lengthD)
next
  case (RejectRequest now lib rid reason)
  with rejectRequest_evolves [of s now lib rid reason] show ?thesis by (simp add: list_all2_lengthD)
next
  case (IssueBook now lib rid)
  with issueBook_evolves [of s now lib rid] show ?thesis by (simp add: list_all2_lengthD)
next
  case (ReturnBook now t lib rid)
  with returnBook_evolves [of s now t lib rid] show ?thesis by (simp add: list_all2_lengthD)
next
  case (UpdateBook bid upd)
  then show ?thesis by (simp add: updateBook_requests)
qed




text \<open>
  The invariant itself fails when two calls overlap. Requester 10 calls
  \<^verbatim>\<open>createRequest\<close> twice for the available title; the second call passes the
  duplicate check before the first has created its request and creates its own
  afterwards. Both requests are stored as pending.
\<close>

lemma createRequest_overlap_duplicates:
  "active_count library0 0 10 = 0
   \<and> createRequest library0 10 0 Borrow []
       = (library_pending, Inr (new_request 0 10 Borrow [] Pending None))
   \<and> createRequest_async library0 library0 library_pending library_pending 10 0 Borrow []
       = (library_twice_pending, Inr (new_request 0 10 Borrow [] Pending None))
   \<and> active_count library_twice_pending 0 10 = 2"
  by (simp add: createRequest_def createRequest_async_def BookRequest_create_def findOne_def
        active_count_def example_defs)

end
